theory Spec2Isabelle
  imports Main
begin

section \<open>Strings\<close>

text \<open>
  A Go string is modelled by the list of its characters. The parsers of this package
  walk a string with \<^verbatim>\<open>range\<close>, rune by rune, and compare each rune with ASCII
  delimiters only; a rune that is no delimiter is copied to the output unchanged. A
  \<^typ>\<open>char\<close> of the model therefore stands for one rune of the range U+0000..U+00FF.
  The difference between a nil slice and an empty slice is not modelled: both are the
  empty list.
\<close>

definition isSpace :: "char \<Rightarrow> bool" where
  \<comment> \<open>\<^verbatim>\<open>unicode.IsSpace\<close> on the Latin-1 range: tab, LF, VT, FF, CR, space, NEL, NBSP.\<close>
  "isSpace c = (c \<in> set [CHR 0x09, CHR 0x0A, CHR 0x0B, CHR 0x0C, CHR 0x0D, CHR '' '',
                          CHR 0x85, CHR 0xA0])"

definition TrimSpace :: "string \<Rightarrow> string" where
  \<comment> \<open>\<^verbatim>\<open>strings.TrimSpace\<close>: the white space at both ends is removed.\<close>
  "TrimSpace s = rev (dropWhile isSpace (rev (dropWhile isSpace s)))"

definition HasPrefix :: "string \<Rightarrow> string \<Rightarrow> bool" where
  "HasPrefix s p = (take (length p) s = p)"

definition TrimPrefix :: "string \<Rightarrow> string \<Rightarrow> string" where
  "TrimPrefix s p = (if HasPrefix s p then drop (length p) s else s)"

definition HasSuffix :: "string \<Rightarrow> string \<Rightarrow> bool" where
  "HasSuffix s p = (length p \<le> length s \<and> drop (length s - length p) s = p)"

definition TrimSuffix :: "string \<Rightarrow> string \<Rightarrow> string" where
  "TrimSuffix s p = (if HasSuffix s p then take (length s - length p) s else s)"

text \<open>
  \<^verbatim>\<open>strings.Split(s, sep)\<close> for a non-empty separator: the pieces between the
  non-overlapping occurrences of \<open>sep\<close>, found from the left; always at least one piece.
\<close>

function SplitOn :: "string \<Rightarrow> string \<Rightarrow> string list" where
  "SplitOn sep [] = [[]]"
| "SplitOn sep (c # cs) =
     (if sep \<noteq> [] \<and> HasPrefix (c # cs) sep
      then [] # SplitOn sep (drop (length sep) (c # cs))
      else (case SplitOn sep cs of
              [] \<Rightarrow> [[c]]
            | p # ps \<Rightarrow> (c # p) # ps))"
  by pat_completeness auto
termination
  by (relation "measure (\<lambda>(sep, s). length s)") auto

definition Split :: "string \<Rightarrow> string \<Rightarrow> string list" where
  \<comment> \<open>With an empty separator Go splits after each character.\<close>
  "Split s sep = (if sep = [] then map (\<lambda>c. [c]) s else SplitOn sep s)"

definition isDigit :: "char \<Rightarrow> bool" where
  "isDigit c = (c \<in> set ''0123456789'')"

definition digitsValue :: "string \<Rightarrow> int" where
  "digitsValue ds = foldl (\<lambda>n ch. n * 10 + (of_char ch - 48)) 0 ds"

definition Atoi_ok :: "string \<Rightarrow> bool" where
  \<comment> \<open>Whether \<^verbatim>\<open>strconv.Atoi\<close> returns no error (64-bit \<^verbatim>\<open>int\<close>): an optional sign, then
      one or more decimal digits, the value within \<open>-2^63 .. 2^63 - 1\<close>
      (\<open>2^63 = 9223372036854775808\<close>).\<close>
  "Atoi_ok s =
     (let neg = (s \<noteq> [] \<and> hd s = CHR ''-'');
          ds = (if s \<noteq> [] \<and> (hd s = CHR ''-'' \<or> hd s = CHR ''+'') then tl s else s)
      in ds \<noteq> [] \<and> list_all isDigit ds \<and>
         (if neg then digitsValue ds \<le> 9223372036854775808
          else digitsValue ds < 9223372036854775808))"

section \<open>The annotation taxonomy\<close>

text \<open>\<^verbatim>\<open>type Detail int\<close>, its constants numbered by \<^verbatim>\<open>iota\<close> in declaration order.\<close>

type_synonym Detail = int

definition Adj_i :: Detail where "Adj_i = 0"
definition Adj_na :: Detail where "Adj_na = 1"
definition Adj_no :: Detail where "Adj_no = 2"
definition Adj_pn :: Detail where "Adj_pn = 3"
definition Adj_t :: Detail where "Adj_t = 4"
definition Adj_f :: Detail where "Adj_f = 5"
definition Adj :: Detail where "Adj = 6"
definition Adv :: Detail where "Adv = 7"
definition Adv_n :: Detail where "Adv_n = 8"
definition Adv_to :: Detail where "Adv_to = 9"
definition Aux :: Detail where "Aux = 10"
definition Aux_v :: Detail where "Aux_v = 11"
definition Aux_adj :: Detail where "Aux_adj = 12"
definition Conj :: Detail where "Conj = 13"
definition Ctr :: Detail where "Ctr = 14"
definition Exp :: Detail where "Exp = 15"
definition Int_detail :: Detail where "Int_detail = 16"
definition Iv :: Detail where "Iv = 17"
definition N :: Detail where "N = 18"
definition N_adv :: Detail where "N_adv = 19"
definition N_pref :: Detail where "N_pref = 20"
definition N_suf :: Detail where "N_suf = 21"
definition N_t :: Detail where "N_t = 22"
definition Num :: Detail where "Num = 23"
definition Pn :: Detail where "Pn = 24"
definition Pref :: Detail where "Pref = 25"
definition Prt :: Detail where "Prt = 26"
definition Suf :: Detail where "Suf = 27"
definition V1 :: Detail where "V1 = 28"
definition V2a_s :: Detail where "V2a_s = 29"
definition V4h :: Detail where "V4h = 30"
definition V4r :: Detail where "V4r = 31"
definition V5 :: Detail where "V5 = 32"
definition V5aru :: Detail where "V5aru = 33"
definition V5b :: Detail where "V5b = 34"
definition V5g :: Detail where "V5g = 35"
definition V5k :: Detail where "V5k = 36"
definition V5k_s :: Detail where "V5k_s = 37"
definition V5m :: Detail where "V5m = 38"
definition V5n :: Detail where "V5n = 39"
definition V5r :: Detail where "V5r = 40"
definition V5r_i :: Detail where "V5r_i = 41"
definition V5s :: Detail where "V5s = 42"
definition V5t :: Detail where "V5t = 43"
definition V5u :: Detail where "V5u = 44"
definition V5u_s :: Detail where "V5u_s = 45"
definition V5uru :: Detail where "V5uru = 46"
definition V5z :: Detail where "V5z = 47"
definition Vz :: Detail where "Vz = 48"
definition Vi :: Detail where "Vi = 49"
definition Vk :: Detail where "Vk = 50"
definition Vn :: Detail where "Vn = 51"
definition Vs :: Detail where "Vs = 52"
definition Vs_c :: Detail where "Vs_c = 53"
definition Vs_i :: Detail where "Vs_i = 54"
definition Vs_s :: Detail where "Vs_s = 55"
definition Vt :: Detail where "Vt = 56"
definition Buddh :: Detail where "Buddh = 57"
definition MA :: Detail where "MA = 58"
definition Comp :: Detail where "Comp = 59"
definition Food :: Detail where "Food = 60"
definition Geom :: Detail where "Geom = 61"
definition Gram :: Detail where "Gram = 62"
definition Ling :: Detail where "Ling = 63"
definition Math :: Detail where "Math = 64"
definition Mil :: Detail where "Mil = 65"
definition Physics :: Detail where "Physics = 66"
definition X :: Detail where "X = 67"
definition Abbr :: Detail where "Abbr = 68"
definition Arch :: Detail where "Arch = 69"
definition Ateji :: Detail where "Ateji = 70"
definition Chn :: Detail where "Chn = 71"
definition Col :: Detail where "Col = 72"
definition Derog :: Detail where "Derog = 73"
definition EK :: Detail where "EK = 74"
definition Ek :: Detail where "Ek = 75"
definition Fam :: Detail where "Fam = 76"
definition Fem :: Detail where "Fem = 77"
definition Gikun :: Detail where "Gikun = 78"
definition Hon :: Detail where "Hon = 79"
definition Hum :: Detail where "Hum = 80"
definition Ik :: Detail where "Ik = 81"
definition IK :: Detail where "IK = 82"
definition Id_detail :: Detail where "Id_detail = 83"
definition Io :: Detail where "Io = 84"
definition M_sl :: Detail where "M_sl = 85"
definition Male :: Detail where "Male = 86"
definition Male_sl :: Detail where "Male_sl = 87"
definition OK :: Detail where "OK = 88"
definition Obs :: Detail where "Obs = 89"
definition Obsc :: Detail where "Obsc = 90"
definition Ok :: Detail where "Ok = 91"
definition On_mim :: Detail where "On_mim = 92"
definition Poet :: Detail where "Poet = 93"
definition Pol :: Detail where "Pol = 94"
definition Rare :: Detail where "Rare = 95"
definition Sens :: Detail where "Sens = 96"
definition Sl :: Detail where "Sl = 97"
definition UK :: Detail where "UK = 98"
definition Uk :: Detail where "Uk = 99"
definition Vulg :: Detail where "Vulg = 100"
definition Common :: Detail where "Common = 101"

text \<open>The map literal \<^verbatim>\<open>DetailString\<close>, entry by entry in the order of the source.\<close>

definition DetailString_entries :: "(Detail \<times> string) list" where
  "DetailString_entries =
    [(Adj_i, ''adj-i''), (Adj_na, ''adj-na''), (Adj_no, ''adj-no''), (Adj_pn, ''adj-pn''),
     (Adj_t, ''adj-t''), (Adj_f, ''adj-f''), (Adj, ''adj''), (Adv, ''adv''),
     (Adv_n, ''adv-n''), (Adv_to, ''adv-to''), (Aux, ''aux''), (Aux_v, ''aux-v''),
     (Aux_adj, ''aux-adj''), (Conj, ''conj''), (Ctr, ''ctr''), (Exp, ''exp''), (Int_detail, ''int''),
     (Iv, ''iv''), (N, ''n''), (N_adv, ''n-adv''), (N_pref, ''n-pref''), (N_suf, ''n-suf''),
     (N_t, ''n-t''), (Num, ''num''), (Pn, ''pn''), (Pref, ''pref''), (Prt, ''prt''),
     (Suf, ''suf''), (V1, ''v1''), (V2a_s, ''v2a-s''), (V4h, ''v4h''), (V4r, ''v4r''),
     (V5, ''v5''), (V5aru, ''v5aru''), (V5b, ''v5b''), (V5g, ''v5g''), (V5k, ''v5k''),
     (V5k_s, ''v5k-s''), (V5m, ''v5m''), (V5n, ''v5n''), (V5r, ''v5r''), (V5r_i, ''v5r-i''),
     (V5s, ''v5s''), (V5t, ''v5t''), (V5u, ''v5u''), (V5u_s, ''v5u-s''), (V5uru, ''v5uru''),
     (V5z, ''v5z''), (Vz, ''vz''), (Vi, ''vi''), (Vk, ''vk''), (Vn, ''vn''), (Vs, ''vs''),
     (Vs_c, ''vs-c''), (Vs_i, ''vs-i''), (Vs_s, ''vs-s''), (Vt, ''vt''), (Buddh, ''buddh''),
     (MA, ''mA''), (Comp, ''comp''), (Food, ''food''), (Geom, ''geom''), (Gram, ''gram''),
     (Ling, ''ling''), (Math, ''math''), (Mil, ''mil''), (Physics, ''physics''), (X, ''x''),
     (Abbr, ''abbr''), (Arch, ''arch''), (Ateji, ''ateji''), (Chn, ''chn''), (Col, ''col''),
     (Derog, ''derog''), (EK, ''eK''), (Ek, ''ek''), (Fam, ''fam''), (Fem, ''fem''),
     (Gikun, ''gikun''), (Hon, ''hon''), (Hum, ''hum''), (Ik, ''ik''), (IK, ''iK''),
     (Id_detail, ''id''), (Io, ''io''), (M_sl, ''m-sl''), (Male, ''male''),
     (Male_sl, ''male-sl''), (OK, ''oK''), (Obs, ''obs''), (Obsc, ''obsc''), (Ok, ''ok''),
     (On_mim, ''on-mim''), (Poet, ''poet''), (Pol, ''pol''), (Rare, ''rare''),
     (Sens, ''sens''), (Sl, ''sl''), (UK, ''uK''), (Uk, ''uk''), (Vulg, ''vulg''),
     (Common, ''P'')]"

definition DetailString :: "Detail \<rightharpoonup> string" where
  "DetailString = map_of DetailString_entries"

text \<open>
  \<^verbatim>\<open>init\<close> fills \<^verbatim>\<open>DetailFor\<close> by storing \<^verbatim>\<open>DetailFor[str] = detail\<close> for each entry
  of \<^verbatim>\<open>DetailString\<close>. Go visits the entries of a map in no fixed order, so the order of
  the visit is an argument.
\<close>

definition init_DetailFor :: "(Detail \<times> string) list \<Rightarrow> (string \<rightharpoonup> Detail)" where
  "init_DetailFor visit = fold (\<lambda>(detail, str) m. m(str \<mapsto> detail)) visit Map.empty"

definition DetailFor :: "string \<rightharpoonup> Detail" where
  "DetailFor = init_DetailFor DetailString_entries"

definition DetailFor_at :: "string \<Rightarrow> Detail" where
  \<comment> \<open>The one-value index expression \<^verbatim>\<open>DetailFor[identifier]\<close>: zero for a missing key.\<close>
  "DetailFor_at s = (case DetailFor s of None \<Rightarrow> 0 | Some d \<Rightarrow> d)"

section \<open>The identifier classifier\<close>

text \<open>
  The constants \<^verbatim>\<open>none\<close>, \<^verbatim>\<open>xref\<close>, \<^verbatim>\<open>detail\<close> and \<^verbatim>\<open>text\<close> of the source carry the
  suffix \<open>_class\<close> here: \<^verbatim>\<open>parseLine\<close> has local variables of the same names.
\<close>

datatype identifierClass = none_class | xref_class | detail_class | text_class

definition parseIdentifier :: "string \<Rightarrow> identifierClass \<times> string" where
  "parseIdentifier s =
     (if Atoi_ok s then (none_class, [])
      else if HasPrefix s ''See '' then (xref_class, TrimPrefix s ''See '')
      else if DetailFor s \<noteq> None then (detail_class, s)
      else (text_class, s))"

section \<open>The gloss parser\<close>

datatype parseGlossState = startGS | captureGS | closedGS | definitionGS

datatype gloss_error =
    UnexpectedInClosed char
  | NotInDefinition "Detail list" "string list" string

text \<open>The variables of \<^verbatim>\<open>parseGloss\<close> that its loop reads and writes.\<close>

record gloss_vars =
  state :: parseGlossState
  captured :: string
  defcapture :: string
  details :: "Detail list"
  xrefs :: "string list"
  err :: "gloss_error option"

text \<open>
  One round of the loop, on the character \<open>c\<close>. The \<^verbatim>\<open>default\<close> branch of the source's
  switch cannot be taken: \<^verbatim>\<open>state\<close> only ever holds one of the four constants.
\<close>

definition gloss_step :: "gloss_vars \<Rightarrow> char \<Rightarrow> gloss_vars" where
  "gloss_step v c =
     (case state v of
        startGS \<Rightarrow>
          if c = CHR ''('' then v\<lparr>state := captureGS\<rparr>
          else v\<lparr>state := definitionGS, defcapture := defcapture v @ [c]\<rparr>
      | definitionGS \<Rightarrow> v\<lparr>defcapture := defcapture v @ [c]\<rparr>
      | captureGS \<Rightarrow>
          if c = CHR '')'' then
            (case parseIdentifier (captured v) of
               (detail_class, identifier) \<Rightarrow>
                 v\<lparr>state := closedGS, details := details v @ [DetailFor_at identifier],
                   captured := []\<rparr>
             | (xref_class, identifier) \<Rightarrow>
                 v\<lparr>state := closedGS, xrefs := xrefs v @ [identifier], captured := []\<rparr>
             | (text_class, identifier) \<Rightarrow>
                 v\<lparr>state := definitionGS,
                   defcapture := defcapture v @ ''('' @ captured v @ '')'', captured := []\<rparr>
             | (none_class, identifier) \<Rightarrow> v\<lparr>state := closedGS, captured := []\<rparr>)
          else if c = CHR '','' then
            (case parseIdentifier (captured v) of
               (detail_class, identifier) \<Rightarrow>
                 v\<lparr>details := details v @ [DetailFor_at identifier], captured := []\<rparr>
             | (_, identifier) \<Rightarrow> v\<lparr>captured := captured v @ '',''\<rparr>)
          else v\<lparr>captured := captured v @ [c]\<rparr>
      | closedGS \<Rightarrow>
          if c = CHR '' '' then v\<lparr>state := startGS\<rparr>
          else v\<lparr>err := Some (UnexpectedInClosed c)\<rparr>)"

definition gloss_init :: gloss_vars where
  "gloss_init = \<lparr>state = startGS, captured = [], defcapture = [], details = [], xrefs = [],
                 err = None\<rparr>"

definition gloss_loop :: "string \<Rightarrow> gloss_vars" where
  "gloss_loop gloss = foldl gloss_step gloss_init gloss"

text \<open>The four results \<^verbatim>\<open>def, details, xrefs, err\<close>.\<close>

definition parseGloss ::
  "string \<Rightarrow> string \<times> Detail list \<times> string list \<times> gloss_error option" where
  "parseGloss gloss =
     (let gloss = TrimSpace gloss;
          v = gloss_loop gloss
      in if state v \<noteq> definitionGS
         then ([], details v, xrefs v, Some (NotInDefinition (details v) (xrefs v) []))
         else (defcapture v, details v, xrefs v, err v))"

section \<open>The key parser\<close>

datatype parseKeyState = kanjiKS | spaceKS | kanaKS | doneKS

datatype key_error =
    NotDoneOrSpace parseKeyState string
  | CharsInCapture string string parseKeyState

text \<open>The variables of \<^verbatim>\<open>parseKey\<close>; \<open>kstate\<close> is its \<^verbatim>\<open>state\<close>.\<close>

record key_vars =
  kanji :: "string list"
  kana :: "string list"
  capture :: string
  kstate :: parseKeyState

definition key_step :: "key_vars \<Rightarrow> char \<Rightarrow> key_vars" where
  "key_step v c =
     (if c = CHR '';'' \<or> kstate v = kanaKS \<and> c = CHR '']'' \<or> kstate v = kanjiKS \<and> c = CHR '' ''
      then
        (if kstate v = kanjiKS
         then v\<lparr>kanji := kanji v @ [capture v],
                kstate := (if c = CHR '' '' then spaceKS else kstate v), capture := []\<rparr>
         else if kstate v = kanaKS
         then v\<lparr>kana := kana v @ [capture v],
                kstate := (if c = CHR '']'' then doneKS else kstate v), capture := []\<rparr>
         else v\<lparr>capture := []\<rparr>)
      else if c = CHR '' '' \<and> kstate v = spaceKS then v
      else if c = CHR ''['' \<and> kstate v = spaceKS then v\<lparr>kstate := kanaKS\<rparr>
      else v\<lparr>capture := capture v @ [c]\<rparr>)"

definition key_init :: key_vars where
  "key_init = \<lparr>kanji = [], kana = [], capture = [], kstate = kanjiKS\<rparr>"

definition key_loop :: "string \<Rightarrow> key_vars" where
  "key_loop key = foldl key_step key_init key"

definition key_flush :: "key_vars \<Rightarrow> key_vars" where
  \<comment> \<open>The \<^verbatim>\<open>if state == kanjiKS\<close> block after the loop.\<close>
  "key_flush v =
     (if kstate v = kanjiKS
      then v\<lparr>kanji := kanji v @ [capture v], capture := [], kstate := doneKS\<rparr>
      else v)"

text \<open>The three results \<^verbatim>\<open>kanji, kana, err\<close>.\<close>

definition parseKey :: "string \<Rightarrow> string list \<times> string list \<times> key_error option" where
  "parseKey key =
     (let key = TrimSpace key;
          v = key_flush (key_loop key)
      in if \<not> (kstate v = doneKS \<or> kstate v = spaceKS)
         then (kanji v, kana v, Some (NotDoneOrSpace (kstate v) key))
         else if length (capture v) \<noteq> 0
         then (kanji v, kana v, Some (CharsInCapture key (capture v) (kstate v)))
         else (kanji v, kana v, None))"

definition fixKey :: "string \<Rightarrow> string" where
  "fixKey key = (if CHR ''('' \<in> set key then Split key ''('' ! 0 else key)"

section \<open>The line assembler\<close>

record Gloss =
  Definition :: string
  Information :: "Detail list"
  Xref :: "string list"

record Entry =
  Kanji :: "string list"
  Kana :: "string list"
  Information :: "Detail list"
  Gloss :: "Gloss list"
  Sequence :: string
  RecordingAvailable :: bool

datatype line_error =
    LastNotBlank string
  | KeyError key_error
  | EntryDetailsError gloss_error
  | UnexpectedXref
  | GlossError string gloss_error

text \<open>A call either returns its results or panics (an index out of range).\<close>

datatype 'a outcome = Panicked | Returned 'a

text \<open>
  The block that looks for entry-wide details in front of the \<^verbatim>\<open>(1)\<close> marker; it gives the
  entry, the list \<^verbatim>\<open>glosses\<close> and the error it returns with, if any.
\<close>

definition entry_wide ::
  "Entry \<Rightarrow> string list \<Rightarrow> Entry \<times> string list \<times> line_error option" where
  "entry_wide result parts =
     (let glosses = [parts ! 1] in
      if length parts > 4 then
        (let firstGlossParts = Split (parts ! 1) ''(1)'' in
         if length firstGlossParts = 2 then
           (case parseGloss (firstGlossParts ! 0 @ ''fake definition'') of
              (_, detail, xref, Some e) \<Rightarrow> (result, glosses, Some (EntryDetailsError e))
            | (_, detail, xref, None) \<Rightarrow>
                if length xref \<noteq> 0 then (result, glosses, Some UnexpectedXref)
                else (result\<lparr>Information := detail\<rparr>,
                      glosses[0 := firstGlossParts ! 1], None))
         else (result, glosses, None))
      else (result, glosses, None))"

text \<open>The loop over \<^verbatim>\<open>glosses\<close>; it stops at the first gloss that does not parse.\<close>

fun gloss_fields :: "Entry \<Rightarrow> string list \<Rightarrow> Entry \<times> line_error option" where
  "gloss_fields result [] = (result, None)"
| "gloss_fields result (gloss # rest) =
     (if gloss = ''(P)''
      then gloss_fields (result\<lparr>Information := Information result @ [Common]\<rparr>) rest
      else
        (case parseGloss gloss of
           (def, detail, xref, Some e) \<Rightarrow> (result, Some (GlossError gloss e))
         | (def, detail, xref, None) \<Rightarrow>
             gloss_fields
               (result\<lparr>Gloss := Gloss result @
                   [\<lparr>Definition = def, Information = detail, Xref = xref\<rparr>]\<rparr>) rest))"

definition transfer_details :: "nat \<Rightarrow> Entry \<Rightarrow> Entry outcome" where
  \<comment> \<open>"In the event that there's only one gloss, transfer the details to the entry."\<close>
  "transfer_details n result =
     (if n \<le> 4 then
        (case Gloss result of
           [] \<Rightarrow> Panicked
         | g # gs \<Rightarrow>
             Returned (result\<lparr>Information := Gloss.Information g,
                         Gloss := g\<lparr>Gloss.Information := []\<rparr> # gs\<rparr>))
      else Returned result)"

definition fix_keys :: "Entry \<Rightarrow> Entry" where
  "fix_keys result = result\<lparr>Kanji := map fixKey (Kanji result), Kana := map fixKey (Kana result)\<rparr>"

definition parseLine :: "string \<Rightarrow> (Entry \<times> line_error option) outcome" where
  "parseLine line =
     (let result = \<lparr>Kanji = [], Kana = [], Information = [], Gloss = [], Sequence = [],
                     RecordingAvailable = False\<rparr>;
          parts = Split line ''/'';
          last = parts ! (length parts - 1)
      in if last \<noteq> [] then Returned (result, Some (LastNotBlank last))
         else if length parts < 2 then Panicked
         else
           (let result = result\<lparr>Sequence := parts ! (length parts - 2)\<rparr>;
                result = (if HasSuffix (Sequence result) ''X''
                          then result\<lparr>RecordingAvailable := True,
                                 Sequence := TrimSuffix (Sequence result) ''X''\<rparr>
                          else result)
            in case parseKey (parts ! 0) of
                 (kj, kn, Some e) \<Rightarrow>
                   Returned (result\<lparr>Kanji := kj, Kana := kn\<rparr>, Some (KeyError e))
               | (kj, kn, None) \<Rightarrow>
                   (case entry_wide (result\<lparr>Kanji := kj, Kana := kn\<rparr>) parts of
                      (result, glosses, Some e) \<Rightarrow> Returned (result, Some e)
                    | (result, glosses, None) \<Rightarrow>
                        (let glosses =
                               (if length parts > 4
                                then glosses @ take (length parts - 4) (drop 2 parts)
                                else glosses)
                         in case gloss_fields (result\<lparr>Gloss := []\<rparr>) glosses of
                              (result, Some e) \<Rightarrow> Returned (result, Some e)
                            | (result, None) \<Rightarrow>
                                (case transfer_details (length parts) result of
                                   Panicked \<Rightarrow> Panicked
                                 | Returned result \<Rightarrow> Returned (fix_keys result, None))))))"

section \<open>The batch driver\<close>

definition blacklist :: "nat list" where
  "blacklist = [5189, 31179, 104168, 104171, 148763]"

datatype parse_error =
    LineError nat line_error
  | PastEOF nat string

text \<open>
  The scanner is modelled by the lines it yields, in order, and the error
  \<^verbatim>\<open>scanner.Err()\<close> reports once they are exhausted.
\<close>

fun scan_lines ::
  "nat \<Rightarrow> Entry list \<Rightarrow> string list \<Rightarrow> string option \<Rightarrow>
   (Entry list \<times> parse_error option) outcome" where
  "scan_lines line result [] scan_err =
     (case scan_err of
        Some e \<Rightarrow> Returned (result, Some (PastEOF line e))
      | None \<Rightarrow> Returned (result, None))"
| "scan_lines line result (text # rest) scan_err =
     (case parseLine text of
        Panicked \<Rightarrow> Panicked
      | Returned (entry, Some e) \<Rightarrow>
          if line + 1 \<in> set blacklist then scan_lines (line + 1) result rest scan_err
          else Returned (result, Some (LineError (line + 1) e))
      | Returned (entry, None) \<Rightarrow> scan_lines (line + 1) (result @ [entry]) rest scan_err)"

definition Parse :: "string list \<Rightarrow> string option \<Rightarrow> (Entry list \<times> parse_error option) outcome" where
  "Parse lines scan_err = scan_lines 0 [] lines scan_err"

section \<open>Invariants of the loops\<close>

text \<open>
  What holds of the variables of \<^verbatim>\<open>parseKey\<close> after every round of its loop: a semicolon is
  never captured, a space is never captured while a kanji is accumulated, the kanji list
  is non-empty once the kanji state is left, and a kana is only added in the kana state.
\<close>

definition key_inv :: "key_vars \<Rightarrow> bool" where
  "key_inv v \<longleftrightarrow>
     CHR '';'' \<notin> set (capture v) \<and>
     (\<forall>k \<in> set (kanji v). CHR '';'' \<notin> set k \<and> CHR '' '' \<notin> set k) \<and>
     (\<forall>k \<in> set (kana v). CHR '';'' \<notin> set k) \<and>
     (kstate v = kanjiKS \<longrightarrow> CHR '' '' \<notin> set (capture v)) \<and>
     (kstate v \<noteq> kanjiKS \<longrightarrow> kanji v \<noteq> []) \<and>
     (kstate v = kanjiKS \<or> kstate v = spaceKS \<longrightarrow> kana v = [])"

section \<open>Notions used to state the properties of the gloss parser\<close>

definition parseGloss_err :: "string \<Rightarrow> gloss_error option" where
  \<comment> \<open>The error result of \<^verbatim>\<open>parseGloss\<close>.\<close>
  "parseGloss_err gloss = (case parseGloss gloss of (d, ds, xs, e) \<Rightarrow> e)"

text \<open>
  A tag is written \<open>(t)\<close> or, grouped, \<open>(t1,...,tn)\<close>. Its tokens hold neither a comma nor
  a closing parenthesis; the tokens before a comma are annotation codes, and the last
  token is anything that the classifier does not take for free text (an ordinal, a
  cross-reference or an annotation code).
\<close>

fun tag_ok :: "string list \<Rightarrow> bool" where
  "tag_ok [] = False"
| "tag_ok [t] =
     (CHR '')'' \<notin> set t \<and> CHR '','' \<notin> set t \<and> fst (parseIdentifier t) \<noteq> text_class)"
| "tag_ok (t # ts) =
     (CHR '')'' \<notin> set t \<and> CHR '','' \<notin> set t \<and> fst (parseIdentifier t) = detail_class \<and>
      tag_ok ts)"

fun tag_body :: "string list \<Rightarrow> string" where
  "tag_body [] = []"
| "tag_body [t] = t"
| "tag_body (t # ts) = t @ '','' @ tag_body ts"

definition tag_text :: "string list \<Rightarrow> string" where
  "tag_text ts = ''('' @ tag_body ts @ '')''"

definition tags_text :: "string list list \<Rightarrow> string" where
  \<comment> \<open>A run of tags, each followed by a space.\<close>
  "tags_text tags = concat (map (\<lambda>ts. tag_text ts @ '' '') tags)"

section \<open>Notions used to state the properties of the batch driver\<close>

definition line_ok :: "string \<Rightarrow> bool" where
  \<comment> \<open>The line parses: \<^verbatim>\<open>parseLine\<close> returns with a nil error.\<close>
  "line_ok text = (case parseLine text of Returned (entry, None) \<Rightarrow> True | _ \<Rightarrow> False)"

definition line_fails :: "string \<Rightarrow> bool" where
  \<comment> \<open>The parse of the line fails: \<^verbatim>\<open>parseLine\<close> returns with an error.\<close>
  "line_fails text = (case parseLine text of Returned (entry, Some e) \<Rightarrow> True | _ \<Rightarrow> False)"

definition records_of :: "string list \<Rightarrow> Entry list" where
  \<comment> \<open>The records of the lines that parse, in the order of the lines.\<close>
  "records_of lines =
     List.map_filter
       (\<lambda>text. case parseLine text of Returned (entry, None) \<Rightarrow> Some entry | _ \<Rightarrow> None) lines"

definition passes :: "nat \<Rightarrow> string \<Rightarrow> bool" where
  \<comment> \<open>The batch goes on after the line \<open>text\<close> at the 0-based position \<open>i\<close>: the line parses,
      or its parse fails and its 1-based number is in the skip-list.\<close>
  "passes i text \<longleftrightarrow> line_ok text \<or> line_fails text \<and> Suc i \<in> set blacklist"

section \<open>Notions used to state the properties of the line assembler\<close>

definition gloss_of :: "string \<Rightarrow> Gloss" where
  \<comment> \<open>The \<^verbatim>\<open>Gloss\<close> that the loop of \<^verbatim>\<open>parseLine\<close> builds from a field it parses.\<close>
  "gloss_of gloss =
     (case parseGloss gloss of (d, ds, xs, e) \<Rightarrow> \<lparr>Definition = d, Information = ds, Xref = xs\<rparr>)"

definition redistributes :: "string list \<Rightarrow> bool" where
  \<comment> \<open>The guard of the block that moves the details in front of \<^verbatim>\<open>(1)\<close> to the entry: more
      than four parts, and the first gloss field splits on \<^verbatim>\<open>(1)\<close> into two pieces.\<close>
  "redistributes parts \<longleftrightarrow> length parts > 4 \<and> length (Split (parts ! 1) ''(1)'') = 2"

definition line_glosses :: "string list \<Rightarrow> string list" where
  \<comment> \<open>The list \<^verbatim>\<open>glosses\<close> that the loop of \<^verbatim>\<open>parseLine\<close> walks, from the parts of the line.\<close>
  "line_glosses parts =
     (if redistributes parts then Split (parts ! 1) ''(1)'' ! 1 else parts ! 1) #
     (if length parts > 4 then take (length parts - 4) (drop 2 parts) else [])"

section \<open>Properties of the annotation taxonomy\<close>

lemmas Detail_defs =
  Adj_i_def Adj_na_def Adj_no_def Adj_pn_def Adj_t_def Adj_f_def Adj_def Adv_def Adv_n_def
  Adv_to_def Aux_def Aux_v_def Aux_adj_def Conj_def Ctr_def Exp_def Int_detail_def Iv_def N_def
  N_adv_def N_pref_def N_suf_def N_t_def Num_def Pn_def Pref_def Prt_def Suf_def V1_def
  V2a_s_def V4h_def V4r_def V5_def V5aru_def V5b_def V5g_def V5k_def V5k_s_def V5m_def V5n_def
  V5r_def V5r_i_def V5s_def V5t_def V5u_def V5u_s_def V5uru_def V5z_def Vz_def Vi_def Vk_def
  Vn_def Vs_def Vs_c_def Vs_i_def Vs_s_def Vt_def Buddh_def MA_def Comp_def Food_def Geom_def
  Gram_def Ling_def Math_def Mil_def Physics_def X_def Abbr_def Arch_def Ateji_def Chn_def
  Col_def Derog_def EK_def Ek_def Fam_def Fem_def Gikun_def Hon_def Hum_def Ik_def IK_def
  Id_detail_def Io_def M_sl_def Male_def Male_sl_def OK_def Obs_def Obsc_def Ok_def On_mim_def
  Poet_def Pol_def Rare_def Sens_def Sl_def UK_def Uk_def Vulg_def Common_def

lemma init_DetailFor_fold:
  "fold (\<lambda>(detail, str) m. m(str \<mapsto> detail)) visit m0 =
     m0 ++ map_of (rev (map (\<lambda>(detail, str). (str, detail)) visit))"
  by (induction visit arbitrary: m0) (auto simp: map_add_def fun_eq_iff split: option.splits)

text \<open>
  When the codes are pairwise distinct, the table built by \<^verbatim>\<open>init\<close> holds exactly the
  swapped entries, whatever the order of the visit.
\<close>

lemma init_DetailFor_Some:
  assumes "distinct (map snd visit)"
  shows "init_DetailFor visit s = Some d \<longleftrightarrow> (d, s) \<in> set visit"
proof -
  let ?sw = "rev (map (\<lambda>(detail, str). (str, detail)) visit)"
  have fst_sw: "map fst ?sw = rev (map snd visit)"
    by (simp add: rev_map case_prod_unfold)
  have "distinct (map fst ?sw)"
    using assms by (simp only: fst_sw distinct_rev)
  then have "map_of ?sw s = Some d \<longleftrightarrow> (s, d) \<in> set ?sw"
    by (rule map_of_eq_Some_iff)
  also have "\<dots> \<longleftrightarrow> (d, s) \<in> set visit"
    by auto
  finally show ?thesis
    by (simp add: init_DetailFor_def init_DetailFor_fold)
qed

lemma distinct_codes: "distinct (map snd DetailString_entries)"
  by (simp add: DetailString_entries_def)

lemma distinct_details: "distinct (map fst DetailString_entries)"
  by (simp add: DetailString_entries_def Detail_defs)

lemma DetailString_Some: "DetailString A = Some s \<longleftrightarrow> (A, s) \<in> set DetailString_entries"
  unfolding DetailString_def using distinct_details by (rule map_of_eq_Some_iff)

lemma DetailFor_Some: "DetailFor s = Some A \<longleftrightarrow> (A, s) \<in> set DetailString_entries"
  unfolding DetailFor_def using distinct_codes by (rule init_DetailFor_Some)

lemma DetailFor_any_order:
  assumes "set visit = set DetailString_entries" and "distinct (map snd visit)"
  shows "init_DetailFor visit = DetailFor"
proof
  fix s
  have "init_DetailFor visit s = Some d \<longleftrightarrow> DetailFor s = Some d" for d
    by (simp only: init_DetailFor_Some [OF assms(2)] DetailFor_Some assms(1))
  then show "init_DetailFor visit s = DetailFor s"
    by (metis not_Some_eq)
qed

lemma codes_inj:
  assumes "(A, s) \<in> set DetailString_entries" and "(B, s) \<in> set DetailString_entries"
  shows "A = B"
  using assms DetailFor_Some by (metis option.inject)

text \<open>
  C10: the code mapping is a bijection on the closed set. \<^verbatim>\<open>DetailFor\<close> maps a string to
  the Detail \<open>A\<close> exactly when \<^verbatim>\<open>DetailString\<close> maps \<open>A\<close> to that string, so looking up the
  code of every \<open>A\<close> of the table gives \<open>A\<close> again; and two Details of the table with the
  same code are the same Detail.
\<close>

theorem DetailFor_inverts_DetailString:
  "(DetailFor s = Some A \<longleftrightarrow> DetailString A = Some s) \<and>
   (DetailString A = Some s \<and> DetailString B = Some s \<longrightarrow> A = B)"
  using codes_inj by (auto simp: DetailString_Some DetailFor_Some)

theorem DetailFor_inverts_DetailString_witness:
  "DetailString Vs_c = Some ''vs-c'' \<and> DetailFor ''vs-c'' = Some Vs_c"
proof -
  have "DetailString Vs_c = Some ''vs-c''"
    by (simp add: DetailString_Some DetailString_entries_def)
  then show ?thesis
    using DetailFor_inverts_DetailString [of "''vs-c''" Vs_c Vs_c] by simp
qed

section \<open>Properties of the key parser\<close>

lemma key_inv_init: "key_inv key_init"
  by (simp add: key_inv_def key_init_def)

lemma key_inv_step: "key_inv v \<Longrightarrow> key_inv (key_step v c)"
  by (cases "kstate v") (auto simp: key_inv_def key_step_def)

lemma key_inv_loop: "key_inv (key_loop key)"
  unfolding key_loop_def
  by (induction key rule: rev_induct) (simp_all add: key_inv_init key_inv_step)

lemma key_inv_flush: "key_inv v \<Longrightarrow> key_inv (key_flush v)"
  by (auto simp: key_inv_def key_flush_def)

lemma parseKey_results:
  "parseKey key = (kanji (key_flush (key_loop (TrimSpace key))),
                   kana (key_flush (key_loop (TrimSpace key))),
                   snd (snd (parseKey key)))"
  by (simp add: parseKey_def Let_def)

text \<open>
  C5, as the code has it: whenever \<^verbatim>\<open>parseKey\<close> succeeds, the kanji list is non-empty, no
  string of either list contains a semicolon, and no kanji contains a space. The kana list
  may be empty (the key \<open>A\<close>). Nothing is promised about brackets, nor about spaces in a
  kana.
\<close>

theorem parseKey_output:
  "(parseKey key = (ks, ys, None) \<longrightarrow>
      ks \<noteq> [] \<and>
      (\<forall>k \<in> set ks. CHR '';'' \<notin> set k \<and> CHR '' '' \<notin> set k) \<and>
      (\<forall>y \<in> set ys. CHR '';'' \<notin> set y)) \<and>
   parseKey ''A'' = ([''A''], [], None)"
proof (intro conjI impI)
  assume ok: "parseKey key = (ks, ys, None)"
  let ?v = "key_flush (key_loop (TrimSpace key))"
  have inv: "key_inv ?v"
    by (rule key_inv_flush [OF key_inv_loop])
  have ks: "ks = kanji ?v" and ys: "ys = kana ?v"
    using ok parseKey_results [of key] by simp_all
  have left: "kstate ?v \<noteq> kanjiKS"
    by (simp add: key_flush_def)
  from inv left show "ks \<noteq> []"
    unfolding ks key_inv_def by blast
  from inv show "\<forall>k \<in> set ks. CHR '';'' \<notin> set k \<and> CHR '' '' \<notin> set k"
    unfolding ks key_inv_def by blast
  from inv show "\<forall>y \<in> set ys. CHR '';'' \<notin> set y"
    unfolding ys key_inv_def by blast
next
  show "parseKey ''A'' = ([''A''], [], None)"
    by code_simp
qed

theorem parseKey_output_witness:
  "parseKey ''A;B  [C;D]'' = ([''A'', ''B''], [''C'', ''D''], None) \<and>
   [''A'', ''B''] \<noteq> ([] :: string list) \<and>
   CHR '';'' \<notin> set ''A'' \<and> CHR '' '' \<notin> set ''B'' \<and> CHR '';'' \<notin> set ''C''"
proof -
  have run: "parseKey ''A;B  [C;D]'' = ([''A'', ''B''], [''C'', ''D''], None)"
    by code_simp
  show ?thesis
    using parseKey_output [of "''A;B  [C;D]''" "[''A'', ''B'']" "[''C'', ''D'']"] run
    by simp
qed

text \<open>
  The key \<open>[x] [ y ]\<close> parses without error to a kanji with both brackets in it and a kana
  with a leading and a trailing space.
\<close>

theorem parseKey_output_counterexample:
  "parseKey ''[x] [ y ]'' = ([''[x]''], ['' y ''], None)"
  by code_simp

text \<open>
  C6, as the code has it. When the end of the input is reached in the kanji state, the
  pending token is flushed as the last kanji, after those that semicolons closed before it,
  the kana list is empty and there is no error. Ending in the kana state is an error that
  cites the state. Ending in the space state or in the done state is an error only when
  the pending buffer is non-empty; with an empty buffer the call succeeds.
\<close>

theorem parseKey_termination:
  "parseKey key =
     (let k = TrimSpace key; v = key_loop k
      in if kstate v = kanjiKS then (kanji v @ [capture v], [], None)
         else if kstate v = kanaKS then (kanji v, kana v, Some (NotDoneOrSpace kanaKS k))
         else if capture v \<noteq> []
         then (kanji v, kana v, Some (CharsInCapture k (capture v) (kstate v)))
         else (kanji v, kana v, None))"
proof -
  let ?v = "key_loop (TrimSpace key)"
  have "kstate ?v = kanjiKS \<Longrightarrow> kana ?v = []"
    using key_inv_loop [of "TrimSpace key"] by (simp add: key_inv_def)
  then show ?thesis
    by (cases "kstate ?v") (simp_all add: parseKey_def key_flush_def Let_def)
qed

theorem parseKey_termination_witness:
  "parseKey ''A;B'' = ([''A'', ''B''], [], None)"
  using parseKey_termination [of "''A;B''"] by code_simp

text \<open>
  The key \<open>A ;\<close> ends in the space state and the key \<open>A [x]\<close> in the done state, and both
  parse without error; the key \<open>A;B\<close> ends in the kanji state and the flushed token is the
  second of two kanji.
\<close>

theorem parseKey_termination_counterexample:
  "kstate (key_loop (TrimSpace ''A ;'')) = spaceKS \<and>
   parseKey ''A ;'' = ([''A''], [], None) \<and>
   kstate (key_loop (TrimSpace ''A [x]'')) = doneKS \<and>
   parseKey ''A [x]'' = ([''A''], [''x''], None) \<and>
   kstate (key_loop (TrimSpace ''A;B'')) = kanjiKS \<and>
   parseKey ''A;B'' = ([''A'', ''B''], [], None)"
  by code_simp

section \<open>Properties of the gloss parser\<close>

lemma gloss_loop_snoc: "gloss_loop (cs @ [c]) = gloss_step (gloss_loop cs) c"
  by (simp add: gloss_loop_def)

lemma gloss_loop_append: "gloss_loop (xs @ ys) = foldl gloss_step (gloss_loop xs) ys"
  by (simp add: gloss_loop_def)

lemma gloss_step_err:
  "err (gloss_step v c) \<noteq> None \<longleftrightarrow> err v \<noteq> None \<or> state v = closedGS \<and> c \<noteq> CHR '' ''"
  by (cases "state v")
     (auto simp: gloss_step_def split: prod.splits identifierClass.splits)

text \<open>The error variable is set in the loop exactly by a non-space met in the closed state.\<close>

lemma gloss_loop_err:
  "err (gloss_loop g) \<noteq> None \<longleftrightarrow>
     (\<exists>i<length g. state (gloss_loop (take i g)) = closedGS \<and> g ! i \<noteq> CHR '' '')"
proof (induction g rule: rev_induct)
  case Nil
  then show ?case by (simp add: gloss_loop_def gloss_init_def)
next
  case (snoc c cs)
  have "(\<exists>i<length (cs @ [c]). state (gloss_loop (take i (cs @ [c]))) = closedGS \<and>
            (cs @ [c]) ! i \<noteq> CHR '' '') \<longleftrightarrow>
        (\<exists>i<length cs. state (gloss_loop (take i cs)) = closedGS \<and> cs ! i \<noteq> CHR '' '') \<or>
        state (gloss_loop cs) = closedGS \<and> c \<noteq> CHR '' ''"
    (is "?L \<longleftrightarrow> ?A \<or> ?B")
  proof
    assume ?L
    then obtain i where i: "i < Suc (length cs)"
      "state (gloss_loop (take i (cs @ [c]))) = closedGS" "(cs @ [c]) ! i \<noteq> CHR '' ''"
      by auto
    show "?A \<or> ?B"
    proof (cases "i < length cs")
      case True
      with i have "state (gloss_loop (take i cs)) = closedGS \<and> cs ! i \<noteq> CHR '' ''"
        by (simp add: nth_append)
      with True show ?thesis by blast
    next
      case False
      with i have "i = length cs" by simp
      with i show ?thesis by simp
    qed
  next
    assume "?A \<or> ?B"
    then show ?L
    proof
      assume ?A
      then obtain i where "i < length cs" "state (gloss_loop (take i cs)) = closedGS"
        "cs ! i \<noteq> CHR '' ''" by blast
      then have "i < length (cs @ [c]) \<and> state (gloss_loop (take i (cs @ [c]))) = closedGS \<and>
                 (cs @ [c]) ! i \<noteq> CHR '' ''"
        by (simp add: nth_append)
      then show ?L by blast
    next
      assume ?B
      then have "length cs < length (cs @ [c]) \<and>
                 state (gloss_loop (take (length cs) (cs @ [c]))) = closedGS \<and>
                 (cs @ [c]) ! length cs \<noteq> CHR '' ''"
        by simp
      then show ?L by blast
    qed
  qed
  with snoc show ?case
    by (simp only: gloss_loop_snoc gloss_step_err)
qed

lemma parseGloss_err_iff:
  "parseGloss_err gloss \<noteq> None \<longleftrightarrow>
     (\<exists>i<length (TrimSpace gloss).
         state (gloss_loop (take i (TrimSpace gloss))) = closedGS \<and>
         TrimSpace gloss ! i \<noteq> CHR '' '') \<or>
     state (gloss_loop (TrimSpace gloss)) \<noteq> definitionGS"
  using gloss_loop_err [of "TrimSpace gloss"]
  by (auto simp: parseGloss_err_def parseGloss_def Let_def)

subsection \<open>Single rounds of the loop\<close>

lemma gloss_step_open:
  "state v = startGS \<Longrightarrow> gloss_step v CHR ''('' = v\<lparr>state := captureGS\<rparr>"
  by (simp add: gloss_step_def)

lemma gloss_step_begin_definition:
  "state v = startGS \<Longrightarrow> c \<noteq> CHR ''('' \<Longrightarrow>
   gloss_step v c = v\<lparr>state := definitionGS, defcapture := defcapture v @ [c]\<rparr>"
  by (simp add: gloss_step_def)

lemma gloss_step_definition:
  "state v = definitionGS \<Longrightarrow> gloss_step v c = v\<lparr>defcapture := defcapture v @ [c]\<rparr>"
  by (simp add: gloss_step_def)

lemma gloss_step_capture:
  "state v = captureGS \<Longrightarrow> c \<noteq> CHR '')'' \<Longrightarrow> c \<noteq> CHR '','' \<Longrightarrow>
   gloss_step v c = v\<lparr>captured := captured v @ [c]\<rparr>"
  by (simp add: gloss_step_def)

lemma gloss_step_space:
  "state v = closedGS \<Longrightarrow> gloss_step v CHR '' '' = v\<lparr>state := startGS\<rparr>"
  by (simp add: gloss_step_def)

lemma parseIdentifier_detail:
  assumes "fst (parseIdentifier s) = detail_class"
  shows "parseIdentifier s = (detail_class, s)" and "DetailFor s \<noteq> None"
  using assms by (auto simp: parseIdentifier_def split: if_splits)

lemma gloss_step_comma_detail:
  assumes "state v = captureGS" and "fst (parseIdentifier (captured v)) = detail_class"
  shows "gloss_step v CHR '','' =
           v\<lparr>details := details v @ [DetailFor_at (captured v)], captured := []\<rparr>"
  using assms(1) parseIdentifier_detail(1) [OF assms(2)] by (simp add: gloss_step_def)

lemma gloss_step_comma_other:
  assumes "state v = captureGS" and "fst (parseIdentifier (captured v)) \<noteq> detail_class"
  shows "gloss_step v CHR '','' = v\<lparr>captured := captured v @ '',''\<rparr>"
  using assms
  by (cases "parseIdentifier (captured v)"; cases "fst (parseIdentifier (captured v))")
     (simp_all add: gloss_step_def)

lemma gloss_step_close_tag:
  assumes "state v = captureGS" and "fst (parseIdentifier (captured v)) \<noteq> text_class"
  shows "state (gloss_step v CHR '')'') = closedGS \<and>
         captured (gloss_step v CHR '')'') = [] \<and>
         err (gloss_step v CHR '')'') = err v \<and>
         defcapture (gloss_step v CHR '')'') = defcapture v"
  using assms
  by (cases "parseIdentifier (captured v)"; cases "fst (parseIdentifier (captured v))")
     (simp_all add: gloss_step_def)

subsection \<open>Runs of the loop over well-formed pieces of a gloss\<close>

lemma capture_run:
  assumes "state v = captureGS" and "CHR '')'' \<notin> set t" and "CHR '','' \<notin> set t"
  shows "foldl gloss_step v t = v\<lparr>captured := captured v @ t\<rparr>"
  using assms
proof (induction t arbitrary: v)
  case Nil
  then show ?case by simp
next
  case (Cons c t)
  have step: "gloss_step v c = v\<lparr>captured := captured v @ [c]\<rparr>"
    using Cons.prems by (intro gloss_step_capture) auto
  have "foldl gloss_step (v\<lparr>captured := captured v @ [c]\<rparr>) t =
        v\<lparr>captured := captured v @ [c]\<rparr>\<lparr>captured := captured (v\<lparr>captured := captured v @ [c]\<rparr>) @ t\<rparr>"
    using Cons.prems by (intro Cons.IH) simp_all
  then show ?case
    by (simp add: step)
qed

lemma definition_run:
  assumes "state v = definitionGS"
  shows "foldl gloss_step v d = v\<lparr>defcapture := defcapture v @ d\<rparr>"
  using assms
proof (induction d arbitrary: v)
  case Nil
  then show ?case by simp
next
  case (Cons c d)
  have step: "gloss_step v c = v\<lparr>defcapture := defcapture v @ [c]\<rparr>"
    using Cons.prems by (rule gloss_step_definition)
  have "foldl gloss_step (v\<lparr>defcapture := defcapture v @ [c]\<rparr>) d =
        v\<lparr>defcapture := defcapture v @ [c]\<rparr>
         \<lparr>defcapture := defcapture (v\<lparr>defcapture := defcapture v @ [c]\<rparr>) @ d\<rparr>"
    using Cons.prems by (intro Cons.IH) simp
  then show ?case
    by (simp add: step)
qed

lemma start_definition_run:
  assumes "state v = startGS" and "d \<noteq> []" and "hd d \<noteq> CHR ''(''"
  shows "foldl gloss_step v d = v\<lparr>state := definitionGS, defcapture := defcapture v @ d\<rparr>"
proof -
  from assms obtain c cs where d: "d = c # cs" and c: "c \<noteq> CHR ''(''"
    by (cases d) auto
  have step: "gloss_step v c = v\<lparr>state := definitionGS, defcapture := defcapture v @ [c]\<rparr>"
    using assms(1) c by (rule gloss_step_begin_definition)
  show ?thesis
    by (simp add: d step definition_run)
qed

lemma tag_body_run:
  assumes "tag_ok ts" and "state v = captureGS" and "captured v = []"
  shows "state (foldl gloss_step v (tag_body ts @ '')'')) = closedGS \<and>
         captured (foldl gloss_step v (tag_body ts @ '')'')) = [] \<and>
         err (foldl gloss_step v (tag_body ts @ '')'')) = err v \<and>
         defcapture (foldl gloss_step v (tag_body ts @ '')'')) = defcapture v"
  using assms
proof (induction ts arbitrary: v rule: tag_ok.induct)
  case 1
  then show ?case by simp
next
  case (2 t)
  then have run: "foldl gloss_step v t = v\<lparr>captured := t\<rparr>"
    using capture_run [of v t] by simp
  have all: "foldl gloss_step v (tag_body [t] @ '')'') = gloss_step (v\<lparr>captured := t\<rparr>) CHR '')''"
    by (simp add: run)
  have "state (v\<lparr>captured := t\<rparr>) = captureGS"
    and "fst (parseIdentifier (captured (v\<lparr>captured := t\<rparr>))) \<noteq> text_class"
    using 2 by simp_all
  then show ?case
    unfolding all using gloss_step_close_tag [of "v\<lparr>captured := t\<rparr>"] by simp
next
  case (3 t u us)
  then have run: "foldl gloss_step v t = v\<lparr>captured := t\<rparr>"
    using capture_run [of v t] by simp
  define w where "w = v\<lparr>details := details v @ [DetailFor_at t], captured := []\<rparr>"
  have "state (v\<lparr>captured := t\<rparr>) = captureGS"
    and "fst (parseIdentifier (captured (v\<lparr>captured := t\<rparr>))) = detail_class"
    using 3 by simp_all
  then have comma: "gloss_step (v\<lparr>captured := t\<rparr>) CHR '','' = w"
    using gloss_step_comma_detail [of "v\<lparr>captured := t\<rparr>"] by (simp add: w_def)
  have w: "state w = captureGS" "captured w = []" "err w = err v" "defcapture w = defcapture v"
    using 3(3) by (simp_all add: w_def)
  have ok: "tag_ok (u # us)"
    using 3(2) by simp
  have "foldl gloss_step v (tag_body (t # u # us) @ '')'') =
        foldl gloss_step w (tag_body (u # us) @ '')'')"
    by (simp add: run comma)
  then show ?case
    using "3.IH" [OF ok w(1) w(2)] w(3) w(4) by simp
qed

lemma tag_text_run:
  assumes "tag_ok ts" and "state v = startGS" and "captured v = []"
  shows "state (foldl gloss_step v (tag_text ts)) = closedGS \<and>
         captured (foldl gloss_step v (tag_text ts)) = [] \<and>
         err (foldl gloss_step v (tag_text ts)) = err v \<and>
         defcapture (foldl gloss_step v (tag_text ts)) = defcapture v"
proof -
  have step: "gloss_step v CHR ''('' = v\<lparr>state := captureGS\<rparr>"
    using assms(2) by (rule gloss_step_open)
  have "foldl gloss_step v (tag_text ts) =
        foldl gloss_step (v\<lparr>state := captureGS\<rparr>) (tag_body ts @ '')'')"
    by (simp add: tag_text_def step)
  then show ?thesis
    using tag_body_run [OF assms(1), of "v\<lparr>state := captureGS\<rparr>"] assms(3) by simp
qed

lemma tags_text_run:
  assumes "list_all tag_ok tags" and "state v = startGS" and "captured v = []"
  shows "state (foldl gloss_step v (tags_text tags)) = startGS \<and>
         captured (foldl gloss_step v (tags_text tags)) = [] \<and>
         err (foldl gloss_step v (tags_text tags)) = err v \<and>
         defcapture (foldl gloss_step v (tags_text tags)) = defcapture v"
  using assms
proof (induction tags arbitrary: v)
  case Nil
  then show ?case by (simp add: tags_text_def)
next
  case (Cons ts tags)
  define w where "w = foldl gloss_step v (tag_text ts)"
  have ts: "tag_ok ts" and rest: "list_all tag_ok tags"
    using Cons.prems(1) by simp_all
  have w: "state w = closedGS" "captured w = []" "err w = err v" "defcapture w = defcapture v"
    using tag_text_run [OF ts Cons.prems(2) Cons.prems(3)] by (simp_all add: w_def)
  define u where "u = gloss_step w CHR '' ''"
  have "u = w\<lparr>state := startGS\<rparr>"
    unfolding u_def using w(1) by (rule gloss_step_space)
  then have u: "state u = startGS" "captured u = []" "err u = err v"
    "defcapture u = defcapture v"
    using w by simp_all
  have "foldl gloss_step v (tags_text (ts # tags)) = foldl gloss_step u (tags_text tags)"
    by (simp add: tags_text_def u_def w_def)
  then show ?case
    using Cons.IH [OF rest u(1) u(2)] u(3) u(4) by simp
qed

lemma TrimSpace_id:
  assumes "s \<noteq> []" and "\<not> isSpace (hd s)" and "\<not> isSpace (last s)"
  shows "TrimSpace s = s"
proof -
  have front: "dropWhile isSpace s = s"
    using assms(1,2) by (cases s) simp_all
  have "rev s \<noteq> []" and "\<not> isSpace (hd (rev s))"
    using assms(1,3) by (simp_all add: hd_rev)
  then have "dropWhile isSpace (rev s) = rev s"
    by (cases "rev s") simp_all
  then show ?thesis
    by (simp add: TrimSpace_def front)
qed

lemma tags_text_hd: "tags \<noteq> [] \<Longrightarrow> hd (tags_text tags @ rest) = CHR ''(''"
  by (cases tags) (simp_all add: tags_text_def tag_text_def)

lemma not_isSpace_parens: "\<not> isSpace CHR ''(''" "\<not> isSpace CHR '')''"
  by (simp_all add: isSpace_def)

lemma only_tags_fail:
  assumes "list_all tag_ok tags" and "tag_ok ts"
  shows "parseGloss_err (tags_text tags @ tag_text ts) \<noteq> None"
proof -
  let ?g = "tags_text tags @ tag_text ts"
  have hd: "hd ?g = CHR ''(''"
    by (cases tags) (simp_all add: tags_text_hd, simp add: tag_text_def tags_text_def)
  have "last ?g = CHR '')''" and "?g \<noteq> []"
    by (simp_all add: tag_text_def)
  then have trim: "TrimSpace ?g = ?g"
    using hd by (intro TrimSpace_id) (simp_all add: not_isSpace_parens)
  have init: "state gloss_init = startGS" "captured gloss_init = []"
    by (simp_all add: gloss_init_def)
  note a = tags_text_run [OF assms(1) init]
  have "state (gloss_loop ?g) = closedGS"
    using tag_text_run [OF assms(2), of "gloss_loop (tags_text tags)"] a
    by (simp add: gloss_loop_append) (simp add: gloss_loop_def)
  then have "state (gloss_loop (TrimSpace ?g)) \<noteq> definitionGS"
    by (simp add: trim)
  then show ?thesis
    using parseGloss_err_iff [of ?g] by blast
qed

lemma tags_then_definition_ok:
  assumes "list_all tag_ok tags" and "d \<noteq> []" and "hd d \<noteq> CHR ''(''"
    and "\<not> isSpace (hd d)" and "\<not> isSpace (last d)"
  shows "parseGloss_err (tags_text tags @ d) = None \<and> fst (parseGloss (tags_text tags @ d)) = d"
proof -
  let ?g = "tags_text tags @ d"
  have hd: "\<not> isSpace (hd ?g)"
    using assms(2,4) by (cases tags) (simp_all add: tags_text_hd not_isSpace_parens, simp add: tags_text_def)
  have "last ?g = last d" and "?g \<noteq> []"
    using assms(2) by simp_all
  then have trim: "TrimSpace ?g = ?g"
    using hd assms(5) by (intro TrimSpace_id) simp_all
  have init: "state gloss_init = startGS" "captured gloss_init = []"
    by (simp_all add: gloss_init_def)
  let ?w = "gloss_loop (tags_text tags)"
  have a: "state ?w = startGS" "err ?w = None" "defcapture ?w = []"
    using tags_text_run [OF assms(1) init] by (simp_all add: gloss_loop_def gloss_init_def)
  have "gloss_loop ?g = ?w\<lparr>state := definitionGS, defcapture := defcapture ?w @ d\<rparr>"
    using start_definition_run [OF a(1) assms(2,3)] by (simp add: gloss_loop_append)
  then show ?thesis
    using a by (simp add: parseGloss_err_def parseGloss_def trim)
qed
text \<open>
  C7: inside a parenthetical (the capture state) a comma classifies the token captured so
  far. If the token is an annotation code, its annotation is appended to the details and
  the token buffer is emptied; otherwise the comma is appended to the token. In both cases
  nothing else changes: the state stays the capture state. The gloss \<open>(n,adj-no) foo\<close>
  gives the details \<open>[N, Adj_no]\<close> and the definition \<open>foo\<close>.
\<close>

theorem comma_closes_tag:
  "(state v = captureGS \<and> fst (parseIdentifier (captured v)) = detail_class \<longrightarrow>
      (\<exists>d. DetailFor (captured v) = Some d \<and>
           gloss_step v CHR '','' = v\<lparr>details := details v @ [d], captured := []\<rparr>)) \<and>
   (state v = captureGS \<and> fst (parseIdentifier (captured v)) \<noteq> detail_class \<longrightarrow>
      gloss_step v CHR '','' = v\<lparr>captured := captured v @ '',''\<rparr>) \<and>
   parseGloss ''(n,adj-no) foo'' = (''foo'', [N, Adj_no], [], None)"
proof (intro conjI impI)
  assume a: "state v = captureGS \<and> fst (parseIdentifier (captured v)) = detail_class"
  then obtain d where d: "DetailFor (captured v) = Some d"
    using parseIdentifier_detail(2) [of "captured v"] by blast
  then have "gloss_step v CHR '','' = v\<lparr>details := details v @ [d], captured := []\<rparr>"
    using a gloss_step_comma_detail [of v] by (simp add: DetailFor_at_def)
  with d show "\<exists>d. DetailFor (captured v) = Some d \<and>
      gloss_step v CHR '','' = v\<lparr>details := details v @ [d], captured := []\<rparr>"
    by blast
next
  assume "state v = captureGS \<and> fst (parseIdentifier (captured v)) \<noteq> detail_class"
  then show "gloss_step v CHR '','' = v\<lparr>captured := captured v @ '',''\<rparr>"
    using gloss_step_comma_other [of v] by blast
next
  show "parseGloss ''(n,adj-no) foo'' = (''foo'', [N, Adj_no], [], None)"
    by code_simp
qed

theorem comma_closes_tag_witness:
  "state (gloss_loop ''(n'') = captureGS \<and>
   fst (parseIdentifier (captured (gloss_loop ''(n''))) = detail_class \<and>
   gloss_step (gloss_loop ''(n'') CHR '','' =
     \<lparr>state = captureGS, captured = [], defcapture = [], details = [N], xrefs = [],
      err = None\<rparr> \<and>
   fst (parseIdentifier (captured (gloss_loop ''(See a''))) = xref_class \<and>
   gloss_step (gloss_loop ''(See a'') CHR '','' =
     \<lparr>state = captureGS, captured = ''See a,'', defcapture = [], details = [], xrefs = [],
      err = None\<rparr>"
proof -
  have n: "gloss_loop ''(n'' =
      \<lparr>state = captureGS, captured = ''n'', defcapture = [], details = [], xrefs = [],
       err = None\<rparr>"
    and see: "gloss_loop ''(See a'' =
      \<lparr>state = captureGS, captured = ''See a'', defcapture = [], details = [], xrefs = [],
       err = None\<rparr>"
    by code_simp+
  have cls: "fst (parseIdentifier ''n'') = detail_class"
    "fst (parseIdentifier ''See a'') = xref_class"
    by code_simp+
  have N: "DetailFor ''n'' = Some N"
    by code_simp
  show ?thesis
    using comma_closes_tag [of "gloss_loop ''(n''"] comma_closes_tag [of "gloss_loop ''(See a''"]
    by (simp add: n see cls N)
qed

text \<open>
  C8: \<^verbatim>\<open>parseGloss\<close> returns an error exactly when, on the trimmed input, a character met
  in the closed state is not a space or the loop does not end in the definition state.
  So an input made of tags only, spaces between them, fails; and a run of tags, each
  followed by a space, with a definition text after them (non-empty, not starting with an
  opening parenthesis, without white space at either end) parses without error, and the
  definition returned is that text.
\<close>

theorem parseGloss_error_iff:
  "(parseGloss_err gloss \<noteq> None \<longleftrightarrow>
      (\<exists>i<length (TrimSpace gloss).
          state (gloss_loop (take i (TrimSpace gloss))) = closedGS \<and>
          TrimSpace gloss ! i \<noteq> CHR '' '') \<or>
      state (gloss_loop (TrimSpace gloss)) \<noteq> definitionGS) \<and>
   (list_all tag_ok tags \<and> tag_ok ts \<longrightarrow>
      parseGloss_err (tags_text tags @ tag_text ts) \<noteq> None) \<and>
   (list_all tag_ok tags \<and> d \<noteq> [] \<and> hd d \<noteq> CHR ''('' \<and> \<not> isSpace (hd d) \<and>
    \<not> isSpace (last d) \<longrightarrow>
      parseGloss_err (tags_text tags @ d) = None \<and> fst (parseGloss (tags_text tags @ d)) = d)"
  using parseGloss_err_iff [of gloss] only_tags_fail [of tags ts]
    tags_then_definition_ok [of tags d]
  by blast

theorem parseGloss_error_iff_witness:
  "list_all tag_ok [[''1''], [''n'', ''adj-no'']] \<and> tag_ok [''See foobar''] \<and>
   parseGloss_err ''(1) (n,adj-no) (See foobar)'' \<noteq> None \<and>
   parseGloss_err ''(1) (n,adj-no) foo'' = None \<and>
   fst (parseGloss ''(1) (n,adj-no) foo'') = ''foo'' \<and>
   state (gloss_loop (take 3 (TrimSpace ''(n)x foo''))) = closedGS \<and>
   parseGloss_err ''(n)x foo'' \<noteq> None"
proof -
  have tags: "list_all tag_ok [[''1''], [''n'', ''adj-no'']]" and ts: "tag_ok [''See foobar'']"
    by code_simp+
  have d: "''foo'' \<noteq> []" "hd ''foo'' \<noteq> CHR ''(''" "\<not> isSpace (hd ''foo'')"
    "\<not> isSpace (last ''foo'')"
    by (simp_all add: isSpace_def)
  have closed: "state (gloss_loop (take 3 (TrimSpace ''(n)x foo''))) = closedGS"
    by code_simp
  have trim: "TrimSpace ''(n)x foo'' = ''(n)x foo''"
    by code_simp
  have "\<exists>i<length (TrimSpace ''(n)x foo'').
          state (gloss_loop (take i (TrimSpace ''(n)x foo''))) = closedGS \<and>
          TrimSpace ''(n)x foo'' ! i \<noteq> CHR '' ''"
    using closed by (intro exI [of _ 3]) (simp add: trim)
  then show ?thesis
    using parseGloss_error_iff [of "''(n)x foo''" "[[''1''], [''n'', ''adj-no'']]"
        "[''See foobar'']" "''foo''"] tags ts d closed
    by (simp add: tags_text_def tag_text_def)
qed

section \<open>Properties of the batch driver\<close>

lemma records_of_Cons:
  "records_of (text # rest) =
     (case parseLine text of
        Returned (entry, None) \<Rightarrow> entry # records_of rest
      | _ \<Rightarrow> records_of rest)"
  by (simp add: records_of_def map_filter_simps split: outcome.splits option.splits prod.splits)

lemma records_of_Nil: "records_of [] = []"
  by (simp add: records_of_def map_filter_simps)

lemma records_of_all_ok:
  "list_all line_ok lines \<Longrightarrow>
   length (records_of lines) = length lines \<and>
   (\<forall>i<length lines. parseLine (lines ! i) = Returned (records_of lines ! i, None))"
proof (induction lines)
  case Nil
  then show ?case by (simp add: records_of_Nil)
next
  case (Cons ln rest)
  then obtain entry where e: "parseLine ln = Returned (entry, None)"
    by (auto simp: line_ok_def split: outcome.splits option.splits prod.splits)
  have rec: "records_of (ln # rest) = entry # records_of rest"
    by (simp add: records_of_Cons e)
  from Cons have IH: "length (records_of rest) = length rest"
    "\<forall>i<length rest. parseLine (rest ! i) = Returned (records_of rest ! i, None)"
    by simp_all
  show ?case
  proof (intro conjI allI impI)
    show "length (records_of (ln # rest)) = length (ln # rest)"
      by (simp add: rec IH(1))
    fix i assume "i < length (ln # rest)"
    then show "parseLine ((ln # rest) ! i) = Returned (records_of (ln # rest) ! i, None)"
      using IH(2) e by (cases i) (simp_all add: rec)
  qed
qed

text \<open>
  The loop over a prefix of lines that all pass: the counter advances by one per line and
  the records of the lines that parse are appended in order.
\<close>

lemma scan_lines_append:
  assumes "\<forall>j<length xs. passes (n + j) (xs ! j)"
  shows "scan_lines n acc (xs @ ys) se = scan_lines (n + length xs) (acc @ records_of xs) ys se"
  using assms
proof (induction xs arbitrary: n acc)
  case Nil
  then show ?case by (simp add: records_of_Nil)
next
  case (Cons ln rest)
  have first: "passes n ln"
    using Cons.prems by (metis add.right_neutral length_greater_0_conv list.distinct(1) nth_Cons_0)
  have later: "\<forall>j<length rest. passes (Suc n + j) (rest ! j)"
  proof (intro allI impI)
    fix j assume "j < length rest"
    then have "passes (n + Suc j) ((ln # rest) ! Suc j)"
      using Cons.prems by (metis Suc_less_eq length_Cons)
    then show "passes (Suc n + j) (rest ! j)" by simp
  qed
  show ?case
  proof (cases "line_ok ln")
    case True
    then obtain entry where e: "parseLine ln = Returned (entry, None)"
      by (auto simp: line_ok_def split: outcome.splits option.splits prod.splits)
    have "scan_lines n acc ((ln # rest) @ ys) se =
          scan_lines (Suc n) (acc @ [entry]) (rest @ ys) se"
      by (simp add: e)
    also have "\<dots> = scan_lines (Suc n + length rest) ((acc @ [entry]) @ records_of rest) ys se"
      by (rule Cons.IH [OF later])
    finally show ?thesis
      by (simp add: records_of_Cons e)
  next
    case False
    with first have fails: "line_fails ln" and skip: "Suc n \<in> set blacklist"
      by (simp_all add: passes_def)
    from fails obtain entry e where e: "parseLine ln = Returned (entry, Some e)"
      by (auto simp: line_fails_def split: outcome.splits option.splits prod.splits)
    have "scan_lines n acc ((ln # rest) @ ys) se = scan_lines (Suc n) acc (rest @ ys) se"
      using skip by (simp add: e)
    also have "\<dots> = scan_lines (Suc n + length rest) (acc @ records_of rest) ys se"
      by (rule Cons.IH [OF later])
    finally show ?thesis
      by (simp add: records_of_Cons e)
  qed
qed

lemma Parse_no_halt:
  assumes "\<forall>j<length lines. passes j (lines ! j)"
  shows "Parse lines None = Returned (records_of lines, None)"
  using scan_lines_append [of lines 0 "[]" "[]" None] assms by (simp add: Parse_def)

lemma Parse_halt:
  assumes "i < length lines" and "parseLine (lines ! i) = Returned (entry, Some e)"
    and "Suc i \<notin> set blacklist" and "\<forall>j<i. passes j (lines ! j)"
  shows "Parse lines scan_err = Returned (records_of (take i lines), Some (LineError (Suc i) e))"
proof -
  have split: "lines = take i lines @ lines ! i # drop (Suc i) lines"
    using assms(1) by (simp add: id_take_nth_drop)
  have len: "length (take i lines) = i"
    using assms(1) by simp
  have "\<forall>j<length (take i lines). passes (0 + j) (take i lines ! j)"
    using assms(4) by simp
  then have "scan_lines 0 [] (take i lines @ lines ! i # drop (Suc i) lines) scan_err =
        scan_lines (0 + length (take i lines)) ([] @ records_of (take i lines))
          (lines ! i # drop (Suc i) lines) scan_err"
    by (rule scan_lines_append)
  also have "\<dots> = Returned (records_of (take i lines), Some (LineError (Suc i) e))"
    using assms(2,3) by (simp only: len) simp
  finally show ?thesis
    unfolding Parse_def using split by simp
qed

text \<open>
  What \<^verbatim>\<open>Parse\<close> does as long as \<^verbatim>\<open>parseLine\<close> returns on every line it reaches. The lines
  are processed in order with a 1-based counter. A line that parses adds its record, in
  input order; a line whose parse returns an error and whose number is in the skip-list
  adds nothing and the batch goes on; the first line whose parse returns an error and whose
  number is not in the skip-list ends the batch, which returns the records of the lines
  before it and the failure with that line's number. So a batch of N lines that all parse
  gives their N records, in order.
\<close>

theorem Parse_batch:
  "(i < length lines \<and> parseLine (lines ! i) = Returned (entry, Some e) \<and>
    Suc i \<notin> set blacklist \<and> (\<forall>j<i. passes j (lines ! j)) \<longrightarrow>
      Parse lines scan_err =
        Returned (records_of (take i lines), Some (LineError (Suc i) e))) \<and>
   ((\<forall>j<length lines. passes j (lines ! j)) \<longrightarrow>
      Parse lines None = Returned (records_of lines, None)) \<and>
   (list_all line_ok lines \<longrightarrow>
      Parse lines None = Returned (records_of lines, None) \<and>
      length (records_of lines) = length lines \<and>
      (\<forall>j<length lines. parseLine (lines ! j) = Returned (records_of lines ! j, None)))"
proof (intro conjI impI)
  assume "i < length lines \<and> parseLine (lines ! i) = Returned (entry, Some e) \<and>
    Suc i \<notin> set blacklist \<and> (\<forall>j<i. passes j (lines ! j))"
  then show "Parse lines scan_err =
      Returned (records_of (take i lines), Some (LineError (Suc i) e))"
    using Parse_halt [of i lines entry e scan_err] by blast
next
  assume "\<forall>j<length lines. passes j (lines ! j)"
  then show "Parse lines None = Returned (records_of lines, None)"
    by (rule Parse_no_halt)
next
  assume ok: "list_all line_ok lines"
  then have "\<forall>j<length lines. passes j (lines ! j)"
    by (simp add: passes_def list_all_length)
  then show "Parse lines None = Returned (records_of lines, None)"
    by (rule Parse_no_halt)
  from ok show "length (records_of lines) = length lines"
    using records_of_all_ok by blast
  from ok show "\<forall>j<length lines. parseLine (lines ! j) = Returned (records_of lines ! j, None)"
    using records_of_all_ok by blast
qed
lemma records_of_append: "records_of (xs @ ys) = records_of xs @ records_of ys"
  by (induction xs) (simp_all add: records_of_Nil records_of_Cons
      split: outcome.splits option.splits prod.splits)

lemma records_of_replicate:
  "parseLine ln = Returned (entry, None) \<Longrightarrow> records_of (replicate n ln) = replicate n entry"
  by (induction n) (simp_all add: records_of_Nil records_of_Cons)

text \<open>
  Three batches: one that halts at its second line, one of two lines that parse, and one
  of 5190 lines whose line 5189, a number of the skip-list, does not parse.
\<close>

theorem Parse_batch_examples:
  "Parse [''k/(n) a/s/'', ''x'', ''k/b/s/''] None =
     Returned
       ([\<lparr>Kanji = [''k''], Kana = [], Information = [N],
          Gloss = [\<lparr>Definition = ''a'', Information = [], Xref = []\<rparr>],
          Sequence = ''s'', RecordingAvailable = False\<rparr>],
        Some (LineError 2 (LastNotBlank ''x''))) \<and>
   Parse [''k/(n) a/s/'', ''k/b/s/''] None =
     Returned
       ([\<lparr>Kanji = [''k''], Kana = [], Information = [N],
          Gloss = [\<lparr>Definition = ''a'', Information = [], Xref = []\<rparr>],
          Sequence = ''s'', RecordingAvailable = False\<rparr>,
         \<lparr>Kanji = [''k''], Kana = [], Information = [],
          Gloss = [\<lparr>Definition = ''b'', Information = [], Xref = []\<rparr>],
          Sequence = ''s'', RecordingAvailable = False\<rparr>],
        None) \<and>
   Parse (replicate 5188 ''k/b/s/'' @ [''x'', ''k/b/s/'']) None =
     Returned
       (replicate 5189
          \<lparr>Kanji = [''k''], Kana = [], Information = [],
           Gloss = [\<lparr>Definition = ''b'', Information = [], Xref = []\<rparr>],
           Sequence = ''s'', RecordingAvailable = False\<rparr>,
        None)"
proof -
  define A where "A = \<lparr>Kanji = [''k''], Kana = [], Information = [N],
      Gloss = [\<lparr>Definition = ''a'', Information = [], Xref = []\<rparr>],
      Sequence = ''s'', RecordingAvailable = False\<rparr>"
  define B where "B = \<lparr>Kanji = [''k''], Kana = [], Information = [],
      Gloss = [\<lparr>Definition = ''b'', Information = [], Xref = []\<rparr>],
      Sequence = ''s'', RecordingAvailable = False\<rparr>"
  define Z where "Z = \<lparr>Kanji = [], Kana = [], Information = [], Gloss = [],
      Sequence = [], RecordingAvailable = False\<rparr>"
  have a: "parseLine ''k/(n) a/s/'' = Returned (A, None)"
    unfolding A_def by code_simp
  have b: "parseLine ''k/b/s/'' = Returned (B, None)"
    unfolding B_def by code_simp
  have x: "parseLine ''x'' = Returned (Z, Some (LastNotBlank ''x''))"
    unfolding Z_def by code_simp
  have ok: "line_ok ''k/(n) a/s/''" "line_ok ''k/b/s/''"
    by (simp_all add: line_ok_def a b)
  have fails: "line_fails ''x''"
    by (simp add: line_fails_def x)
  have free: "Suc 1 \<notin> set blacklist" and listed: "Suc 5188 \<in> set blacklist"
    by (simp_all add: blacklist_def)
  have first: "Parse [''k/(n) a/s/'', ''x'', ''k/b/s/''] None =
      Returned ([A], Some (LineError 2 (LastNotBlank ''x'')))"
    using Parse_batch [of 1 "[''k/(n) a/s/'', ''x'', ''k/b/s/'']" Z "LastNotBlank ''x''" None]
      free ok x
    by (simp add: passes_def records_of_Cons records_of_Nil a)
  have second: "Parse [''k/(n) a/s/'', ''k/b/s/''] None = Returned ([A, B], None)"
    using Parse_batch [of 0 "[''k/(n) a/s/'', ''k/b/s/'']" Z "LastNotBlank ''x''" None] ok
    by (simp add: records_of_Cons records_of_Nil a b)
  let ?L = "replicate 5188 ''k/b/s/'' @ [''x'', ''k/b/s/'']"
  have all: "\<forall>j<length ?L. passes j (?L ! j)"
  proof (intro allI impI)
    fix j assume j: "j < length ?L"
    consider "j < 5188" | "j = 5188" | "j = 5189"
      using j by fastforce
    then show "passes j (?L ! j)"
    proof cases
      case 1
      then have "?L ! j = ''k/b/s/''"
        by (simp only: nth_append length_replicate if_True nth_replicate)
      then show ?thesis
        by (simp only: passes_def ok simp_thms)
    next
      case 2
      have "?L ! 5188 = ''x''"
        by (simp only: nth_append_length [of "replicate 5188 ''k/b/s/''", simplified length_replicate])
      then show ?thesis
        using listed by (simp only: 2 passes_def fails simp_thms)
    next
      case 3
      have "?L ! (length (replicate 5188 ''k/b/s/'') + 1) = ''k/b/s/''"
        by (simp only: nth_append_length_plus) simp
      then have "?L ! 5189 = ''k/b/s/''"
        by (simp only: length_replicate) simp
      then show ?thesis
        by (simp only: 3 passes_def ok simp_thms)
    qed
  qed
  have recs: "records_of ?L = replicate 5189 B"
  proof -
    have "records_of ?L = replicate 5188 B @ [B]"
      by (simp only: records_of_append records_of_replicate [OF b])
         (simp add: records_of_Cons records_of_Nil b x)
    also have "\<dots> = replicate (Suc 5188) B"
      by (simp only: replicate_append_same replicate.simps)
    finally show ?thesis by simp
  qed
  have third: "Parse ?L None = Returned (replicate 5189 B, None)"
    using Parse_batch [of 0 ?L Z "LastNotBlank ''x''" None] all
    by (simp only: recs)
  show ?thesis
    using first second third unfolding A_def B_def by blast
qed

text \<open>A line on which \<^verbatim>\<open>parseLine\<close> panics ends the batch with that panic.\<close>

lemma scan_lines_panic:
  assumes "\<forall>j<length before. passes j (before ! j)" and "parseLine ln = Panicked"
  shows "Parse (before @ ln # rest) scan_err = Panicked"
proof -
  have "scan_lines 0 [] (before @ ln # rest) scan_err =
        scan_lines (0 + length before) ([] @ records_of before) (ln # rest) scan_err"
    using assms(1) by (intro scan_lines_append) simp
  then show ?thesis
    by (simp add: Parse_def assms(2))
qed

text \<open>
  C9 fails on the code. The claim gives every line that does not parse one of two fates:
  it is skipped when its number is in the skip-list, and otherwise it ends the batch, which
  returns the records so far and a failure with the line's number. A blank line does not
  parse, but \<^verbatim>\<open>parseLine\<close> panics on it instead of returning an error, and \<^verbatim>\<open>Parse\<close>
  panics with it: as line 2 of a batch it is not reported with the record of line 1, and as
  line 5189, a number of the skip-list, it is not skipped.
\<close>

theorem Parse_blank_line_panics:
  "Parse [''k/(n) a/s/'', ''''] None = Panicked \<and>
   5189 \<in> set blacklist \<and>
   Parse (replicate 5188 ''k/b/s/'' @ ['''']) None = Panicked"
proof -
  have blank: "parseLine '''' = Panicked"
    by code_simp
  have ok: "line_ok ''k/(n) a/s/''" "line_ok ''k/b/s/''"
    by code_simp+
  have "\<forall>j<length [''k/(n) a/s/'']. passes j ([''k/(n) a/s/''] ! j)"
    by (simp add: passes_def ok)
  then have "Parse ([''k/(n) a/s/''] @ '''' # []) None = Panicked"
    using blank by (rule scan_lines_panic)
  then have first: "Parse [''k/(n) a/s/'', ''''] None = Panicked"
    by simp
  have "\<forall>j<length (replicate 5188 ''k/b/s/''). passes j (replicate 5188 ''k/b/s/'' ! j)"
  proof (intro allI impI)
    fix j assume "j < length (replicate 5188 ''k/b/s/'')"
    then have "replicate 5188 ''k/b/s/'' ! j = ''k/b/s/''"
      by (simp only: length_replicate nth_replicate)
    then show "passes j (replicate 5188 ''k/b/s/'' ! j)"
      by (simp only: passes_def ok simp_thms)
  qed
  then have second: "Parse (replicate 5188 ''k/b/s/'' @ '''' # []) None = Panicked"
    using blank by (rule scan_lines_panic)
  have listed: "5189 \<in> set blacklist"
    by (simp add: blacklist_def)
  show ?thesis
    using first second listed by blast
qed

section \<open>Properties of the line assembler\<close>

lemma gloss_of_parseGloss:
  "parseGloss gloss = (d, ds, xs, e) \<Longrightarrow>
   gloss_of gloss = \<lparr>Definition = d, Information = ds, Xref = xs\<rparr>"
  by (simp add: gloss_of_def)

text \<open>
  The loop over the glosses, when it meets no error: one \<^verbatim>\<open>Common\<close> is appended to the
  entry's details for each field \<^verbatim>\<open>(P)\<close>, one \<^verbatim>\<open>Gloss\<close> is appended for each other field.
\<close>

lemma gloss_fields_ok:
  assumes "gloss_fields r gs = (r', None)"
  shows "r' = r\<lparr>Information := Information r @ replicate (count_list gs ''(P)'') Common,
                 Gloss := Gloss r @ map gloss_of (filter (\<lambda>g. g \<noteq> ''(P)'') gs)\<rparr>"
  using assms
proof (induction gs arbitrary: r)
  case Nil
  then show ?case by simp
next
  case (Cons g gs)
  show ?case
  proof (cases "g = ''(P)''")
    case True
    with Cons.prems have "gloss_fields (r\<lparr>Information := Information r @ [Common]\<rparr>) gs = (r', None)"
      by simp
    from Cons.IH [OF this] show ?thesis
      using True by (simp add: replicate_append_same)
  next
    case False
    obtain d ds xs e where pg: "parseGloss g = (d, ds, xs, e)"
      by (cases "parseGloss g") auto
    with Cons.prems False have e: "e = None"
      by (cases e) simp_all
    with Cons.prems False pg have
      "gloss_fields (r\<lparr>Gloss := Gloss r @ [\<lparr>Definition = d, Information = ds, Xref = xs\<rparr>]\<rparr>) gs =
         (r', None)"
      by simp
    from Cons.IH [OF this] show ?thesis
      using False by (simp add: gloss_of_parseGloss [OF pg])
  qed
qed

lemma entry_wide_ok:
  assumes "entry_wide r parts = (r1, gl, None)"
  shows "if redistributes parts
         then r1 = r\<lparr>Information :=
                       fst (snd (parseGloss (Split (parts ! 1) ''(1)'' ! 0 @ ''fake definition'')))\<rparr> \<and>
              gl = [Split (parts ! 1) ''(1)'' ! 1] \<and>
              snd (snd (parseGloss (Split (parts ! 1) ''(1)'' ! 0 @ ''fake definition''))) =
                ([], None)
         else r1 = r \<and> gl = [parts ! 1]"
  using assms
  by (auto simp: entry_wide_def redistributes_def Let_def
           split: if_splits prod.splits option.splits)

lemma parseLine_ok_steps:
  assumes "parseLine line = Returned (e, None)"
  obtains r0 kj kn r1 gl r2 r3 where
    "2 \<le> length (Split line ''/'')"
    "parseKey (Split line ''/'' ! 0) = (kj, kn, None)"
    "entry_wide r0 (Split line ''/'') = (r1, gl, None)"
    "gloss_fields (r1\<lparr>Gloss := []\<rparr>)
       (if length (Split line ''/'') > 4
        then gl @ take (length (Split line ''/'') - 4) (drop 2 (Split line ''/''))
        else gl) = (r2, None)"
    "transfer_details (length (Split line ''/'')) r2 = Returned r3"
    "e = fix_keys r3"
    "Information r0 = []"
  using assms unfolding parseLine_def Let_def
  by (auto split: if_splits prod.splits option.splits outcome.splits)

lemma fix_keys_fields:
  "Information (fix_keys r) = Information r" "Gloss (fix_keys r) = Gloss r"
  by (simp_all add: fix_keys_def)

lemma line_glosses_short:
  "length parts \<le> 4 \<Longrightarrow> line_glosses parts = [parts ! 1]"
  by (simp add: line_glosses_def redistributes_def)

text \<open>
  The details and the glosses of the entry that \<^verbatim>\<open>parseLine\<close> returns without error, from
  the parts of the line.
\<close>

lemma parseLine_ok_shape:
  assumes "parseLine line = Returned (e, None)"
  defines "parts \<equiv> Split line ''/''"
  shows "if length parts \<le> 4
         then parts ! 1 \<noteq> ''(P)'' \<and>
              Information e = Gloss.Information (gloss_of (parts ! 1)) \<and>
              Gloss e = [(gloss_of (parts ! 1))\<lparr>Gloss.Information := []\<rparr>]
         else Information e =
                (if redistributes parts
                 then fst (snd (parseGloss (Split (parts ! 1) ''(1)'' ! 0 @ ''fake definition'')))
                 else []) @
                replicate (count_list (line_glosses parts) ''(P)'') Common \<and>
              Gloss e = map gloss_of (filter (\<lambda>g. g \<noteq> ''(P)'') (line_glosses parts))"
proof -
  from assms(1) obtain r0 kj kn r1 gl r2 r3 where
    ew: "entry_wide r0 parts = (r1, gl, None)" and
    gf: "gloss_fields (r1\<lparr>Gloss := []\<rparr>)
           (if length parts > 4 then gl @ take (length parts - 4) (drop 2 parts) else gl) =
         (r2, None)" and
    td: "transfer_details (length parts) r2 = Returned r3" and
    e: "e = fix_keys r3" and
    r0: "Information r0 = []"
    unfolding parts_def by (rule parseLine_ok_steps)
  note shape = entry_wide_ok [OF ew]
  have gl: "(if length parts > 4 then gl @ take (length parts - 4) (drop 2 parts) else gl) =
            line_glosses parts"
    using shape by (auto simp: line_glosses_def redistributes_def split: if_splits)
  have info1: "Information r1 =
      (if redistributes parts
       then fst (snd (parseGloss (Split (parts ! 1) ''(1)'' ! 0 @ ''fake definition'')))
       else [])"
    using shape r0 by (auto split: if_splits)
  have r2: "r2 = r1\<lparr>Gloss := []\<rparr>
      \<lparr>Information := Information (r1\<lparr>Gloss := []\<rparr>) @
           replicate (count_list (line_glosses parts) ''(P)'') Common,
       Gloss := Gloss (r1\<lparr>Gloss := []\<rparr>) @
           map gloss_of (filter (\<lambda>g. g \<noteq> ''(P)'') (line_glosses parts))\<rparr>"
    using gloss_fields_ok [OF gf [unfolded gl]] .
  have info2: "Information r2 = Information r1 @
      replicate (count_list (line_glosses parts) ''(P)'') Common"
    and gloss2: "Gloss r2 = map gloss_of (filter (\<lambda>g. g \<noteq> ''(P)'') (line_glosses parts))"
    by (simp_all add: r2)
  show ?thesis
  proof (cases "length parts \<le> 4")
    case True
    have lg: "line_glosses parts = [parts ! 1]"
      using True by (rule line_glosses_short)
    from td True have ne: "Gloss r2 \<noteq> []"
      by (auto simp: transfer_details_def split: list.splits)
    then have notP: "parts ! 1 \<noteq> ''(P)''"
      by (auto simp: gloss2 lg split: if_splits)
    then have g2: "Gloss r2 = [gloss_of (parts ! 1)]"
      by (simp add: gloss2 lg)
    from td True have "r3 = r2\<lparr>Information := Gloss.Information (gloss_of (parts ! 1)),
        Gloss := [(gloss_of (parts ! 1))\<lparr>Gloss.Information := []\<rparr>]\<rparr>"
      by (simp add: transfer_details_def g2)
    then show ?thesis
      using True notP by (simp add: e fix_keys_fields)
  next
    case False
    with td have "r3 = r2"
      by (simp add: transfer_details_def)
    then show ?thesis
      using False by (simp add: e fix_keys_fields info2 gloss2 info1)
  qed
qed

lemma parseLine_ok_marker:
  assumes "parseLine line = Returned (e, None)" and "redistributes (Split line ''/'')"
  shows "snd (snd (parseGloss (Split (Split line ''/'' ! 1) ''(1)'' ! 0 @ ''fake definition''))) =
           ([], None)"
proof -
  from assms(1) obtain r0 r1 gl where "entry_wide r0 (Split line ''/'') = (r1, gl, None)"
    by (rule parseLine_ok_steps)
  from entry_wide_ok [OF this] assms(2) show ?thesis
    by simp
qed

text \<open>
  C1, as the code has it. For a line that \<^verbatim>\<open>parseLine\<close> accepts, the details in front of
  the marker are moved to the entry exactly when the line has more than four parts between
  slashes (two or more definition fields) and its first gloss field splits on \<^verbatim>\<open>(1)\<close> into
  two pieces. Then the first piece, with the placeholder definition appended, parses
  without error and without cross-reference, its details come first in the entry's
  Information (followed by one \<^verbatim>\<open>Common\<close> for each field \<^verbatim>\<open>(P)\<close>), and the second piece
  is the first definition field. With more than four parts and no such split, the first
  gloss field is parsed whole and the Information holds only the \<^verbatim>\<open>Common\<close> marks. With
  at most four parts the first gloss field is parsed whole and is the only definition.
\<close>

theorem parseLine_redistribution:
  "parseLine line = Returned (e, None) \<longrightarrow>
     (let parts = Split line ''/'';
          pieces = Split (parts ! 1) ''(1)'';
          rest = take (length parts - 4) (drop 2 parts)
      in if length parts > 4 \<and> length pieces = 2
         then snd (snd (parseGloss (pieces ! 0 @ ''fake definition''))) = ([], None) \<and>
              Information e =
                fst (snd (parseGloss (pieces ! 0 @ ''fake definition''))) @
                replicate (count_list (pieces ! 1 # rest) ''(P)'') Common \<and>
              Gloss e = map gloss_of (filter (\<lambda>g. g \<noteq> ''(P)'') (pieces ! 1 # rest))
         else if length parts > 4
         then Information e = replicate (count_list (parts ! 1 # rest) ''(P)'') Common \<and>
              Gloss e = map gloss_of (filter (\<lambda>g. g \<noteq> ''(P)'') (parts ! 1 # rest))
         else Gloss e = [(gloss_of (parts ! 1))\<lparr>Gloss.Information := []\<rparr>])"
proof
  assume ok: "parseLine line = Returned (e, None)"
  let ?parts = "Split line ''/''"
  note shape = parseLine_ok_shape [OF ok]
  show "let parts = Split line ''/'';
          pieces = Split (parts ! 1) ''(1)'';
          rest = take (length parts - 4) (drop 2 parts)
      in if length parts > 4 \<and> length pieces = 2
         then snd (snd (parseGloss (pieces ! 0 @ ''fake definition''))) = ([], None) \<and>
              Information e =
                fst (snd (parseGloss (pieces ! 0 @ ''fake definition''))) @
                replicate (count_list (pieces ! 1 # rest) ''(P)'') Common \<and>
              Gloss e = map gloss_of (filter (\<lambda>g. g \<noteq> ''(P)'') (pieces ! 1 # rest))
         else if length parts > 4
         then Information e = replicate (count_list (parts ! 1 # rest) ''(P)'') Common \<and>
              Gloss e = map gloss_of (filter (\<lambda>g. g \<noteq> ''(P)'') (parts ! 1 # rest))
         else Gloss e = [(gloss_of (parts ! 1))\<lparr>Gloss.Information := []\<rparr>]"
  proof (cases "redistributes ?parts")
    case True
    then have long: "length ?parts > 4" and two: "length (Split (?parts ! 1) ''(1)'') = 2"
      by (simp_all add: redistributes_def)
    have lg: "line_glosses ?parts =
        Split (?parts ! 1) ''(1)'' ! 1 # take (length ?parts - 4) (drop 2 ?parts)"
      using True long by (simp add: line_glosses_def)
    from shape long True have
      "Information e =
         fst (snd (parseGloss (Split (?parts ! 1) ''(1)'' ! 0 @ ''fake definition''))) @
         replicate (count_list (line_glosses ?parts) ''(P)'') Common"
      and "Gloss e = map gloss_of (filter (\<lambda>g. g \<noteq> ''(P)'') (line_glosses ?parts))"
      by simp_all
    then show ?thesis
      using long two parseLine_ok_marker [OF ok True]
      by (simp only: Let_def lg) simp
  next
    case False
    show ?thesis
    proof (cases "length ?parts > 4")
      case True
      with False have two: "length (Split (?parts ! 1) ''(1)'') \<noteq> 2"
        by (simp add: redistributes_def)
      have lg: "line_glosses ?parts = ?parts ! 1 # take (length ?parts - 4) (drop 2 ?parts)"
        using False True by (simp add: line_glosses_def)
      from shape True False have
        "Information e = replicate (count_list (line_glosses ?parts) ''(P)'') Common"
        and "Gloss e = map gloss_of (filter (\<lambda>g. g \<noteq> ''(P)'') (line_glosses ?parts))"
        by simp_all
      then show ?thesis
        using True two by (simp only: Let_def lg) simp
    next
      case short: False
      with shape have "Gloss e = [(gloss_of (?parts ! 1))\<lparr>Gloss.Information := []\<rparr>]"
        by simp
      then show ?thesis
        using short by (simp only: Let_def) simp
    qed
  qed
qed

theorem parseLine_redistribution_witness:
  "parseLine ''k/(n) (1) a/(2) (uk) b/(P)/s/'' =
     Returned
       (\<lparr>Kanji = [''k''], Kana = [], Information = [N, Common],
         Gloss = [\<lparr>Definition = ''a'', Information = [], Xref = []\<rparr>,
                  \<lparr>Definition = ''b'', Information = [Uk], Xref = []\<rparr>],
         Sequence = ''s'', RecordingAvailable = False\<rparr>, None) \<and>
   Split ''k/(n) (1) a/(2) (uk) b/(P)/s/'' ''/'' =
     [''k'', ''(n) (1) a'', ''(2) (uk) b'', ''(P)'', ''s'', ''''] \<and>
   Split ''(n) (1) a'' ''(1)'' = [''(n) '', '' a''] \<and>
   parseGloss ''(n) fake definition'' = (''fake definition'', [N], [], None) \<and>
   map gloss_of ['' a'', ''(2) (uk) b''] =
     [\<lparr>Definition = ''a'', Information = [], Xref = []\<rparr>,
      \<lparr>Definition = ''b'', Information = [Uk], Xref = []\<rparr>]"
proof -
  have run: "parseLine ''k/(n) (1) a/(2) (uk) b/(P)/s/'' =
     Returned
       (\<lparr>Kanji = [''k''], Kana = [], Information = [N, Common],
         Gloss = [\<lparr>Definition = ''a'', Information = [], Xref = []\<rparr>,
                  \<lparr>Definition = ''b'', Information = [Uk], Xref = []\<rparr>],
         Sequence = ''s'', RecordingAvailable = False\<rparr>, None)"
    by code_simp
  have parts: "Split ''k/(n) (1) a/(2) (uk) b/(P)/s/'' ''/'' =
     [''k'', ''(n) (1) a'', ''(2) (uk) b'', ''(P)'', ''s'', '''']"
    and pieces: "Split ''(n) (1) a'' ''(1)'' = [''(n) '', '' a'']"
    by code_simp+
  have fake: "parseGloss ''(n) fake definition'' = (''fake definition'', [N], [], None)"
    by code_simp
  have glosses: "gloss_of '' a'' = \<lparr>Definition = ''a'', Information = [], Xref = []\<rparr>"
    "gloss_of ''(2) (uk) b'' = \<lparr>Definition = ''b'', Information = [Uk], Xref = []\<rparr>"
    by code_simp+
  show ?thesis
    using parseLine_redistribution [of "''k/(n) (1) a/(2) (uk) b/(P)/s/''"] run
    by (simp add: parts pieces fake glosses)
qed

text \<open>
  A line with exactly two definition fields: the details in front of \<^verbatim>\<open>(1)\<close> are moved to
  the entry, and the first gloss is not the first field parsed whole (that would carry
  the detail \<^verbatim>\<open>N\<close>).
\<close>

theorem parseLine_redistribution_counterexample:
  "Split ''k/(n) (1) a/(2) b/s/'' ''/'' = [''k'', ''(n) (1) a'', ''(2) b'', ''s'', ''''] \<and>
   parseLine ''k/(n) (1) a/(2) b/s/'' =
     Returned
       (\<lparr>Kanji = [''k''], Kana = [], Information = [N],
         Gloss = [\<lparr>Definition = ''a'', Information = [], Xref = []\<rparr>,
                  \<lparr>Definition = ''b'', Information = [], Xref = []\<rparr>],
         Sequence = ''s'', RecordingAvailable = False\<rparr>, None) \<and>
   gloss_of ''(n) (1) a'' = \<lparr>Definition = ''a'', Information = [N], Xref = []\<rparr>"
  by code_simp

text \<open>
  C2 fails on the code: the details of a single definition are transferred to the entry
  when the line has at most four parts, not when a single definition was produced. The
  line below has one definition and the field \<^verbatim>\<open>(P)\<close>, hence five parts: its definition
  keeps the detail \<^verbatim>\<open>N\<close> and the entry holds \<^verbatim>\<open>Common\<close> only.
\<close>

theorem parseLine_single_gloss_not_transferred:
  "parseLine ''k/(n) a/(P)/s/'' =
     Returned
       (\<lparr>Kanji = [''k''], Kana = [], Information = [Common],
         Gloss = [\<lparr>Definition = ''a'', Information = [N], Xref = []\<rparr>],
         Sequence = ''s'', RecordingAvailable = False\<rparr>, None)"
  by code_simp

lemma parseLine_P_panics:
  assumes "2 \<le> length (Split line ''/'')" and "length (Split line ''/'') \<le> 4"
    and "Split line ''/'' ! (length (Split line ''/'') - 1) = []"
    and "Split line ''/'' ! 1 = ''(P)''"
    and "snd (snd (parseKey (Split line ''/'' ! 0))) = None"
  shows "parseLine line = Panicked"
proof -
  obtain kj kn where key: "parseKey (Split line ''/'' ! 0) = (kj, kn, None)"
    using assms(5) by (cases "parseKey (Split line ''/'' ! 0)") auto
  have ew: "entry_wide r (Split line ''/'') = (r, [''(P)''], None)" for r
    using assms(2,4) by (simp add: entry_wide_def)
  show ?thesis
    using assms(1,2,3)
    by (simp add: parseLine_def Let_def key ew transfer_details_def)
qed

text \<open>
  C3: \<^verbatim>\<open>parseLine\<close> is not total. It panics on the empty line, and on every line of at
  most four parts whose last part is blank, whose key parses and whose field after the key
  is exactly \<^verbatim>\<open>(P)\<close>. \<^verbatim>\<open>Parse\<close> panics as soon as it reaches such a line.
\<close>

theorem parseLine_panics:
  "parseLine [] = Panicked \<and>
   (2 \<le> length (Split line ''/'') \<and> length (Split line ''/'') \<le> 4 \<and>
    Split line ''/'' ! (length (Split line ''/'') - 1) = [] \<and>
    Split line ''/'' ! 1 = ''(P)'' \<and>
    snd (snd (parseKey (Split line ''/'' ! 0))) = None \<longrightarrow>
      parseLine line = Panicked) \<and>
   ((\<forall>j<length before. passes j (before ! j)) \<and> parseLine ln = Panicked \<longrightarrow>
      Parse (before @ ln # rest) scan_err = Panicked)"
proof (intro conjI impI)
  show "parseLine [] = Panicked"
    by code_simp
next
  assume "2 \<le> length (Split line ''/'') \<and> length (Split line ''/'') \<le> 4 \<and>
    Split line ''/'' ! (length (Split line ''/'') - 1) = [] \<and>
    Split line ''/'' ! 1 = ''(P)'' \<and>
    snd (snd (parseKey (Split line ''/'' ! 0))) = None"
  then show "parseLine line = Panicked"
    using parseLine_P_panics [of line] by blast
next
  assume "(\<forall>j<length before. passes j (before ! j)) \<and> parseLine ln = Panicked"
  then show "Parse (before @ ln # rest) scan_err = Panicked"
    using scan_lines_panic [of before ln rest scan_err] by blast
qed

theorem parseLine_panics_witness:
  "parseLine ''k [g] /(P)/s/'' = Panicked \<and>
   parseLine ''k/(P)/'' = Panicked \<and>
   Parse [''k/(n) a/s/'', ''''] None = Panicked \<and>
   Parse [''k [g] /(P)/s/''] None = Panicked"
proof -
  have p4: "Split ''k [g] /(P)/s/'' ''/'' = [''k [g] '', ''(P)'', ''s'', '''']"
    and p3: "Split ''k/(P)/'' ''/'' = [''k'', ''(P)'', '''']"
    by code_simp+
  have k4: "parseKey ''k [g] '' = ([''k''], [''g''], None)"
    and k3: "parseKey ''k'' = ([''k''], [], None)"
    by code_simp+
  have a: "parseLine ''k [g] /(P)/s/'' = Panicked"
    using parseLine_panics [of "''k [g] /(P)/s/''" "[]" "[]" "[]" None]
    by (simp add: p4 k4)
  have b: "parseLine ''k/(P)/'' = Panicked"
    using parseLine_panics [of "''k/(P)/''" "[]" "[]" "[]" None]
    by (simp add: p3 k3)
  have ok: "line_ok ''k/(n) a/s/''"
    by code_simp
  have empty: "parseLine [] = Panicked"
    using parseLine_panics [of "[]" "[]" "[]" "[]" None] by blast
  have c: "Parse [''k/(n) a/s/'', ''''] None = Panicked"
    using parseLine_panics [of "[]" "[''k/(n) a/s/'']" "[]" "[]" None] ok empty
    by (simp add: passes_def)
  have d: "Parse [''k [g] /(P)/s/''] None = Panicked"
    using parseLine_panics [of "[]" "[]" "''k [g] /(P)/s/''" "[]" None] a
    by simp
  show ?thesis
    using a b c d by blast
qed

text \<open>
  C4, as the code has it. The entry that \<^verbatim>\<open>parseLine\<close> returns without error has one
  definition for each gloss field that is not exactly \<^verbatim>\<open>(P)\<close>. For a line of at most four
  parts that is exactly one definition; for a longer line it may be none.
\<close>

theorem parseLine_gloss_count:
  "parseLine line = Returned (e, None) \<longrightarrow>
     length (Gloss e) =
       length (filter (\<lambda>g. g \<noteq> ''(P)'') (line_glosses (Split line ''/''))) \<and>
     (length (Split line ''/'') \<le> 4 \<longrightarrow> length (Gloss e) = 1)"
proof
  assume ok: "parseLine line = Returned (e, None)"
  note shape = parseLine_ok_shape [OF ok]
  show "length (Gloss e) =
       length (filter (\<lambda>g. g \<noteq> ''(P)'') (line_glosses (Split line ''/''))) \<and>
     (length (Split line ''/'') \<le> 4 \<longrightarrow> length (Gloss e) = 1)"
  proof (cases "length (Split line ''/'') \<le> 4")
    case True
    with shape have "Split line ''/'' ! 1 \<noteq> ''(P)''" and "length (Gloss e) = 1"
      by simp_all
    then show ?thesis
      using True by (simp add: line_glosses_short)
  next
    case False
    with shape have "Gloss e =
        map gloss_of (filter (\<lambda>g. g \<noteq> ''(P)'') (line_glosses (Split line ''/'')))"
      by simp
    then show ?thesis
      using False by simp
  qed
qed

theorem parseLine_gloss_count_witness:
  "parseLine ''k/(n) a/b/(P)/s/'' =
     Returned
       (\<lparr>Kanji = [''k''], Kana = [], Information = [Common],
         Gloss = [\<lparr>Definition = ''a'', Information = [N], Xref = []\<rparr>,
                  \<lparr>Definition = ''b'', Information = [], Xref = []\<rparr>],
         Sequence = ''s'', RecordingAvailable = False\<rparr>, None) \<and>
   line_glosses (Split ''k/(n) a/b/(P)/s/'' ''/'') = [''(n) a'', ''b'', ''(P)''] \<and>
   parseLine ''k/(n) a/s/'' =
     Returned
       (\<lparr>Kanji = [''k''], Kana = [], Information = [N],
         Gloss = [\<lparr>Definition = ''a'', Information = [], Xref = []\<rparr>],
         Sequence = ''s'', RecordingAvailable = False\<rparr>, None) \<and>
   length (Split ''k/(n) a/s/'' ''/'') = 4"
proof -
  have long: "parseLine ''k/(n) a/b/(P)/s/'' =
     Returned
       (\<lparr>Kanji = [''k''], Kana = [], Information = [Common],
         Gloss = [\<lparr>Definition = ''a'', Information = [N], Xref = []\<rparr>,
                  \<lparr>Definition = ''b'', Information = [], Xref = []\<rparr>],
         Sequence = ''s'', RecordingAvailable = False\<rparr>, None)"
    and short: "parseLine ''k/(n) a/s/'' =
     Returned
       (\<lparr>Kanji = [''k''], Kana = [], Information = [N],
         Gloss = [\<lparr>Definition = ''a'', Information = [], Xref = []\<rparr>],
         Sequence = ''s'', RecordingAvailable = False\<rparr>, None)"
    by code_simp+
  have lg: "line_glosses (Split ''k/(n) a/b/(P)/s/'' ''/'') = [''(n) a'', ''b'', ''(P)'']"
    and len: "length (Split ''k/(n) a/s/'' ''/'') = 4"
    by code_simp+
  show ?thesis
    using parseLine_gloss_count [of "''k/(n) a/b/(P)/s/''"]
      parseLine_gloss_count [of "''k/(n) a/s/''"] long short lg len
    by simp
qed

text \<open>
  A line of five parts whose two gloss fields are both \<^verbatim>\<open>(P)\<close> is accepted, and the entry
  returned has no definition.
\<close>

theorem parseLine_gloss_count_counterexample:
  "parseLine ''k/(P)/(P)/s/'' =
     Returned
       (\<lparr>Kanji = [''k''], Kana = [], Information = [Common, Common], Gloss = [],
         Sequence = ''s'', RecordingAvailable = False\<rparr>, None)"
  by code_simp

end
